theory Spec2Isabelle
  imports Complex_Main
begin

section \<open>Exceptions\<close>

text \<open>
  The Python exceptions that the modelled functions raise or let through.
  \<open>KeyboardInterrupt\<close> and pytest's \<open>Failed\<close> derive from \<open>BaseException\<close>
  only, so an \<open>except Exception\<close> clause does not catch them.
\<close>

datatype exn =
    FileNotFoundError
  | ValueError
  | KeyError
  | TypeError
  | AttributeError
  | RuntimeError
  | DecodeError
  | RefreshError
  | HttpError
  | TimeoutError
  | PlaywrightError
  | KeyboardInterrupt
  | Failed

fun is_Exception :: "exn \<Rightarrow> bool" where
  "is_Exception KeyboardInterrupt = False"
| "is_Exception Failed = False"
| "is_Exception _ = True"

section \<open>Gmail messages (utils/google\_utils.py)\<close>

text \<open>
  A message part as the Gmail API delivers it: a dictionary whose keys
  \<open>mimeType\<close>, \<open>body\<close>, \<open>parts\<close> and \<open>headers\<close> may each be absent
  (\<open>None\<close>). The body is a dictionary whose key \<open>data\<close> may be absent.
  An absent \<open>parts\<close> key and a present, empty list are different values:
  \<open>'parts' in part\<close> tells them apart.
\<close>

datatype body = Body (data: "string option")

datatype part =
  Part (mimeType: "string option") (body: "body option")
       (parts: "part list option") (headers: "(string \<times> string) list option")

datatype message = Message (payload: "part option") (snippet: "string option")

text \<open>
  \<open>extract_text_from_message\<close>. The argument \<open>dec\<close> stands for
  \<open>base64.urlsafe_b64decode(d).decode('utf-8')\<close>, which belongs to the Python
  library: it returns the decoded text or raises. The decoded text is a list
  of characters of any type \<open>'c\<close> (Python's code points).

  \<open>extract_text_from_payload dec p\<close> is the call
  \<open>extract_text_from_message({'payload': p})\<close>; \<open>scan_parts\<close> is the
  \<open>for part in parts\<close> loop, which answers \<open>Some r\<close> when the loop body
  returns \<open>r\<close> (or raises) and \<open>None\<close> when the loop runs to its end.
  \<open>plain_text_data\<close> is the loop's first test,
  \<open>part.get('mimeType') == 'text/plain' and 'data' in part['body']\<close>:
  \<open>Inr (Some d)\<close> when it holds, with \<open>d\<close> the value of
  \<open>part['body']['data']\<close>, \<open>Inr None\<close> when it does not, and
  \<open>KeyError\<close> when a text/plain part has no \<open>body\<close> key.
\<close>

definition plain_text_data :: "part \<Rightarrow> exn + string option" where
  "plain_text_data p =
     (if mimeType p = Some ''text/plain''
      then (case body p of None \<Rightarrow> Inl KeyError | Some b \<Rightarrow> Inr (data b))
      else Inr None)"

fun extract_text_from_payload :: "(string \<Rightarrow> exn + 'c list) \<Rightarrow> part \<Rightarrow> exn + 'c list"
  and scan_parts :: "(string \<Rightarrow> exn + 'c list) \<Rightarrow> part list \<Rightarrow> (exn + 'c list) option"
where
  "extract_text_from_payload dec (Part mt b ps hs) =
     (case ps of
        Some (q # qs) \<Rightarrow>
          (case scan_parts dec (q # qs) of Some r \<Rightarrow> r | None \<Rightarrow> Inr [])
      | _ \<Rightarrow>
          (case b of
             Some (Body (Some body_data)) \<Rightarrow> dec body_data
           | _ \<Rightarrow> Inr []))"
| "scan_parts dec [] = None"
| "scan_parts dec (p # rest) =
     (case plain_text_data p of
        Inl e \<Rightarrow> Some (Inl e)
      | Inr (Some body_data) \<Rightarrow> Some (dec body_data)
      | Inr None \<Rightarrow>
          (case parts p of
             None \<Rightarrow> scan_parts dec rest
           | Some qs \<Rightarrow>
               (case extract_text_from_payload dec p of
                  Inl e \<Rightarrow> Some (Inl e)
                | Inr result \<Rightarrow>
                    if result \<noteq> [] then Some (Inr result) else scan_parts dec rest)))"

definition extract_text_from_message :: "(string \<Rightarrow> exn + 'c list) \<Rightarrow> message \<Rightarrow> exn + 'c list" where
  "extract_text_from_message dec msg =
     (case payload msg of
        None \<Rightarrow> Inr []
      | Some p \<Rightarrow> extract_text_from_payload dec p)"

section \<open>The OTP pattern\<close>

text \<open>
  \<open>re.search(r'\b(\d{6})\b', email_text)\<close>. The character classes of the
  regular expression are arguments: \<open>dg\<close> is \<open>\d\<close> and \<open>wd\<close> is
  \<open>\w\<close>. \<open>\b\<close> holds at a position when exactly one of the characters
  before and after it is a word character, the ends of the text counting as
  non-word. The search tries the start positions from left to right and
  returns the first match: its start and its group 1.
\<close>

definition word_boundary :: "('c \<Rightarrow> bool) \<Rightarrow> 'c list \<Rightarrow> nat \<Rightarrow> bool" where
  "word_boundary wd text i =
     ((0 < i \<and> wd (text ! (i - 1))) \<noteq> (i < length text \<and> wd (text ! i)))"

definition otp_match_at :: "('c \<Rightarrow> bool) \<Rightarrow> ('c \<Rightarrow> bool) \<Rightarrow> 'c list \<Rightarrow> nat \<Rightarrow> bool" where
  "otp_match_at dg wd text i =
     (word_boundary wd text i \<and> i + 6 \<le> length text \<and>
      list_all dg (take 6 (drop i text)) \<and> word_boundary wd text (i + 6))"

definition re_search_otp :: "('c \<Rightarrow> bool) \<Rightarrow> ('c \<Rightarrow> bool) \<Rightarrow> 'c list \<Rightarrow> (nat \<times> 'c list) option" where
  "re_search_otp dg wd text =
     (case find (otp_match_at dg wd text) [0..<Suc (length text)] of
        None \<Rightarrow> None
      | Some i \<Rightarrow> Some (i, take 6 (drop i text)))"

definition extract_otp ::
  "(string \<Rightarrow> exn + 'c list) \<Rightarrow> ('c \<Rightarrow> bool) \<Rightarrow> ('c \<Rightarrow> bool) \<Rightarrow> message \<Rightarrow> exn + 'c list option" where
  "extract_otp dec dg wd msg =
     (case extract_text_from_message dec msg of
        Inl e \<Rightarrow> Inl e
      | Inr email_text \<Rightarrow>
          (case re_search_otp dg wd email_text of
             Some m \<Rightarrow> Inr (Some (snd m))
           | None \<Rightarrow> Inr None))"

text \<open>
  Python's classes on ASCII text: \<open>\d\<close> is \<open>0\<close> to \<open>9\<close>, \<open>\w\<close> is a
  letter, a digit or the underscore.
\<close>

definition ascii_digit :: "char \<Rightarrow> bool" where
  "ascii_digit c = (c \<in> set ''0123456789'')"

definition ascii_word :: "char \<Rightarrow> bool" where
  "ascii_word c =
     (c \<in> set ''abcdefghijklmnopqrstuvwxyzABCDEFGHIJKLMNOPQRSTUVWXYZ0123456789_'')"

text \<open>
  The specification's notion: the \<open>n\<close> characters of the text from position
  \<open>i\<close> are a run of digits bounded by non-digit characters (or by an end of
  the text).
\<close>

definition digit_run :: "('c \<Rightarrow> bool) \<Rightarrow> 'c list \<Rightarrow> nat \<Rightarrow> nat \<Rightarrow> bool" where
  "digit_run dg text i n =
     (0 < n \<and> i + n \<le> length text \<and> list_all dg (take n (drop i text)) \<and>
      (i = 0 \<or> \<not> dg (text ! (i - 1))) \<and>
      (i + n = length text \<or> \<not> dg (text ! (i + n))))"

text \<open>
  The specification's notions for the message structure. \<open>plain_datas p\<close>
  lists, in document order, the data of every text/plain part at or below
  \<open>p\<close> that carries data. A part is regular when every text/plain part at
  or below it has a \<open>body\<close> key and no part at or below it has both an
  empty \<open>parts\<close> list and body data.
\<close>

fun plain_datas :: "part \<Rightarrow> string list" where
  "plain_datas (Part mt b ps hs) =
     (case plain_text_data (Part mt b ps hs) of Inr (Some d) \<Rightarrow> [d] | _ \<Rightarrow> []) @
     (case ps of None \<Rightarrow> [] | Some qs \<Rightarrow> concat (map plain_datas qs))"

fun regular_part :: "part \<Rightarrow> bool" where
  "regular_part (Part mt b ps hs) =
     ((mt = Some ''text/plain'' \<longrightarrow> b \<noteq> None) \<and>
      (ps = Some [] \<longrightarrow> (case b of Some (Body (Some d)) \<Rightarrow> False | _ \<Rightarrow> True)) \<and>
      (case ps of None \<Rightarrow> True | Some qs \<Rightarrow> list_all regular_part qs))"

section \<open>The browser and the file system\<close>

text \<open>
  The selectors of app\_selectors/login\_selectors.py that the modelled code
  uses, and the path of the auth file (conftest.py).
\<close>

definition EMAIL_INPUT :: string where
  \<open>EMAIL_INPUT = ''input[name='email']''\<close>

definition CONTINUE_BUTTON :: string where
  \<open>CONTINUE_BUTTON = ''button[name='commit']''\<close>

definition OTP_INPUT :: string where
  \<open>OTP_INPUT = ''input[placeholder="6-digit code"]''\<close>

definition SUBMIT_BUTTON :: string where
  \<open>SUBMIT_BUTTON = ''//span[contains(text(),"Submit")]/parent::button''\<close>

definition DASHBOARD_HEADER :: string where
  \<open>DASHBOARD_HEADER = ''//h2[text()="Welcome back Salman!"]''\<close>

definition AUTH_STATE_FILE :: string where
  "AUTH_STATE_FILE = ''results/auth.json''"

text \<open>
  The calls that reach the outside world, in the order the code makes them.
  Timeouts are in milliseconds, sleeps in seconds.
\<close>

datatype browser_name = Chromium | Firefox | Webkit

datatype event =
    Print string
  | Launch browser_name
  | NewContext "string option"
  | NewPage
  | AddInitScript
  | Goto string
  | Reload
  | Sleep real
  | WriteStorageState string
  | CloseContext
  | WaitForSelector string string int
  | Fill string string
  | LocatorWaitFor string string int
  | LocatorClick string int bool
  | GetLatestEmail string

text \<open>
  The browser automation library is a collaborator of the code: \<open>respond\<close>
  gives, from the calls made so far, whether the next call raises
  (\<open>Some e\<close>) or returns (\<open>None\<close>). \<open>call\<close> makes one call and records it.
\<close>

type_synonym browser = "event list \<Rightarrow> event \<Rightarrow> exn option"

definition call :: "browser \<Rightarrow> event \<Rightarrow> event list \<Rightarrow> (exn + unit) \<times> event list" where
  "call respond ev tr =
     (case respond tr ev of
        Some e \<Rightarrow> (Inl e, tr @ [ev])
      | None \<Rightarrow> (Inr (), tr @ [ev]))"

text \<open>Straight-line code: the calls are made in order until one raises.\<close>

fun calls :: "browser \<Rightarrow> event list \<Rightarrow> event list \<Rightarrow> (exn + unit) \<times> event list" where
  "calls respond [] tr = (Inr (), tr)"
| "calls respond (ev # evs) tr =
     (case call respond ev tr of
        (Inl e, tr') \<Rightarrow> (Inl e, tr')
      | (Inr u, tr') \<Rightarrow> calls respond evs tr')"

text \<open>
  The auth file holds either a storage state that the browser can load or
  anything else (a partial or corrupt file). The file system is the contents
  of the auth file, \<open>None\<close> when the file does not exist.
\<close>

datatype file_content = StorageState string | Corrupt string

section \<open>conftest.py\<close>

text \<open>
  The command-line options that \<open>create_auth_state\<close> reads.
  \<open>--browser\<close> is a list (the option appends) or a single optional value.
\<close>

datatype browser_option = OptList "browser_name list" | OptStr "browser_name option"

record config =
  opt_base_url :: "string option"
  opt_recreate_auth :: bool
  opt_browser :: browser_option

definition browser_name_of :: "browser_option \<Rightarrow> browser_name" where
  "browser_name_of browser_opt =
     (case browser_opt of
        OptList l \<Rightarrow> (case l of [] \<Rightarrow> Chromium | b # _ \<Rightarrow> b)
      | OptStr s \<Rightarrow> (case s of None \<Rightarrow> Chromium | Some b \<Rightarrow> b))"

text \<open>
  \<open>create_auth_state\<close>. \<open>exported\<close> is what \<open>context.storage_state(path)\<close>
  leaves at the path when it returns: \<open>Some c\<close> when it writes \<open>c\<close>,
  \<open>None\<close> when it writes nothing; a call that raises is taken to have
  written nothing. The result is the returned path or the exception raised,
  the file system afterwards, and the calls made.
\<close>

definition create_auth_state ::
  "config \<Rightarrow> browser \<Rightarrow> file_content option \<Rightarrow> file_content option \<Rightarrow>
   (exn + string) \<times> file_content option \<times> event list" where
  "create_auth_state pytestconfig playwright exported fs =
     (let recreate = opt_recreate_auth pytestconfig;
          auth_path = AUTH_STATE_FILE
      in
      if fs \<noteq> None \<and> \<not> recreate
      then (Inr auth_path, fs, [Print ''Using existing auth storage state.''])
      else
        (let browser_name = browser_name_of (opt_browser pytestconfig) in
         case calls playwright
                [Launch browser_name, NewContext None, NewPage, AddInitScript,
                 Goto ''https://dmfluxury.com'', Sleep 150]
                [Print ''Creating new auth storage state...''] of
           (Inl e, tr) \<Rightarrow> (Inl e, fs, tr)
         | (Inr u, tr) \<Rightarrow>
             (case call playwright (WriteStorageState auth_path) tr of
                (Inl e, tr') \<Rightarrow> (Inl e, fs, tr')
              | (Inr u', tr') \<Rightarrow>
                  (let fs' = (case exported of None \<Rightarrow> fs | Some c \<Rightarrow> Some c) in
                   case call playwright CloseContext tr' of
                     (Inl e, tr'') \<Rightarrow> (Inl e, fs', tr'')
                   | (Inr u'', tr'') \<Rightarrow>
                       if fs' = None then (Inl RuntimeError, fs', tr'')
                       else (Inr auth_path, fs', tr'')))))"

text \<open>
  \<open>auth_page\<close>, up to its \<open>yield\<close>. \<open>browser.new_context(storage_state=path)\<close>
  reads the file at the path: it raises when the file is absent or is not a
  storage state. The bare \<open>except\<close> around the wait for the dashboard
  header swallows every exception.
\<close>

definition auth_page ::
  "browser \<Rightarrow> file_content option \<Rightarrow> string \<Rightarrow> string \<Rightarrow> event list \<Rightarrow>
   (exn + unit) \<times> event list" where
  "auth_page browser fs create_auth_state_value base_url tr =
     (case fs of
        None \<Rightarrow> (Inl FileNotFoundError, tr @ [NewContext (Some create_auth_state_value)])
      | Some (Corrupt c) \<Rightarrow> (Inl PlaywrightError, tr @ [NewContext (Some create_auth_state_value)])
      | Some (StorageState s) \<Rightarrow>
          (case calls browser
                  [NewContext (Some create_auth_state_value), NewPage,
                   Goto (base_url @ ''/pages/configurators'')] tr of
             (Inl e, tr') \<Rightarrow> (Inl e, tr')
           | (Inr u, tr') \<Rightarrow>
               (case call browser (WaitForSelector DASHBOARD_HEADER ''visible'' 60000) tr' of
                  (Inl e, tr'') \<Rightarrow>
                    (Inr (), tr'' @ [Print ''Not logged in from storage_state, try recreating auth.json''])
                | (Inr u', tr'') \<Rightarrow> (Inr (), tr''))))"

text \<open>
  A test that asks for \<open>auth_page\<close>: pytest first evaluates the fixture
  \<open>create_auth_state\<close> and passes its value on; when that raises, the
  request fails with its exception.
\<close>

definition request_auth_page ::
  "config \<Rightarrow> browser \<Rightarrow> file_content option \<Rightarrow> file_content option \<Rightarrow>
   (exn + unit) \<times> file_content option \<times> event list" where
  "request_auth_page pytestconfig browser exported fs =
     (case create_auth_state pytestconfig browser exported fs of
        (Inl e, fs', tr) \<Rightarrow> (Inl e, fs', tr)
      | (Inr path, fs', tr) \<Rightarrow>
          (case auth_page browser fs' path ''https://dmfluxury.com'' tr of
             (r, tr') \<Rightarrow> (r, fs', tr')))"

text \<open>
  The calls of one bootstrap, in the order of the statements of
  \<open>create_auth_state\<close> after the early return.
\<close>

definition bootstrap_steps :: "browser_name \<Rightarrow> event list" where
  "bootstrap_steps b =
     [Launch b, NewContext None, NewPage, AddInitScript, Goto ''https://dmfluxury.com'',
      Sleep 150, WriteStorageState AUTH_STATE_FILE, CloseContext]"

text \<open>
  Example inputs: the default command line, a browser on which every call
  returns, and a browser on which the dashboard header never shows (every
  wait for it times out) while every other call returns.
\<close>

definition default_config :: config where
  "default_config = \<lparr>opt_base_url = None, opt_recreate_auth = False, opt_browser = OptList []\<rparr>"

definition all_ok :: browser where
  "all_ok tr ev = None"


fun is_launch :: "event \<Rightarrow> bool" where
  "is_launch (Launch b) = True"
| "is_launch _ = False"

section \<open>The mailbox (utils/google\_utils.py)\<close>

text \<open>
  The mail service and the credential files are outside the code:
  \<open>token_file\<close> is the state of the token file and \<open>client_secrets_file\<close>
  that of the client secrets file; the other fields say whether the library
  calls raise and what the service answers. A file that is there but cannot
  be read as credentials makes the library raise \<open>ValueError\<close>. Console
  output is left out: a caller receives the returned value only.
\<close>

datatype credentials =
  Credentials (creds_valid: bool) (creds_expired: bool) (creds_refresh_token: bool)

datatype token_state = NoToken | BadToken | Token credentials

datatype secrets_state = Missing | Invalid | Usable

record mailbox =
  token_file :: token_state
  client_secrets_file :: secrets_state
  refresh_result :: "exn option"
  run_local_server_result :: "exn option"
  token_write_result :: "exn option"
  build_result :: "exn option"
  messages_list :: "string \<Rightarrow> exn + string list"
  messages_get :: "string \<Rightarrow> exn + message"

definition raise_if :: "exn option \<Rightarrow> exn + unit" where
  "raise_if r = (case r of Some e \<Rightarrow> Inl e | None \<Rightarrow> Inr ())"

definition then_do :: "exn + unit \<Rightarrow> (exn + 'a) \<Rightarrow> exn + 'a" where
  "then_do m k = (case m of Inl e \<Rightarrow> Inl e | Inr u \<Rightarrow> k)"

definition get_gmail_service :: "mailbox \<Rightarrow> exn + unit" where
  "get_gmail_service mb =
     (case token_file mb of
        BadToken \<Rightarrow> Inl ValueError
      | Token creds \<Rightarrow>
          if creds_valid creds then raise_if (build_result mb)
          else
            then_do
              (if creds_expired creds \<and> creds_refresh_token creds
               then raise_if (refresh_result mb)
               else
                 (case client_secrets_file mb of
                    Missing \<Rightarrow> Inl FileNotFoundError
                  | Invalid \<Rightarrow> Inl ValueError
                  | Usable \<Rightarrow> raise_if (run_local_server_result mb)))
              (then_do (raise_if (token_write_result mb)) (raise_if (build_result mb)))
      | NoToken \<Rightarrow>
          then_do
            (case client_secrets_file mb of
               Missing \<Rightarrow> Inl FileNotFoundError
             | Invalid \<Rightarrow> Inl ValueError
             | Usable \<Rightarrow> raise_if (run_local_server_result mb))
            (then_do (raise_if (token_write_result mb)) (raise_if (build_result mb))))"

text \<open>
  \<open>get_latest_email\<close>. Both \<open>except\<close> clauses around
  \<open>get_gmail_service()\<close> return \<open>None\<close>; the second catches every
  \<open>Exception\<close>. The calls to the service that follow are outside the
  \<open>try\<close>. \<open>msg['payload']['headers']\<close> raises \<open>KeyError\<close> when a key is
  absent.
\<close>

definition get_latest_email ::
  "mailbox \<Rightarrow> (string \<Rightarrow> exn + 'c list) \<Rightarrow> ('c \<Rightarrow> bool) \<Rightarrow> ('c \<Rightarrow> bool) \<Rightarrow> string \<Rightarrow>
   exn + 'c list option" where
  "get_latest_email mb dec dg wd query =
     (case get_gmail_service mb of
        Inl e \<Rightarrow>
          if e = FileNotFoundError then Inr None
          else if is_Exception e then Inr None
          else Inl e
      | Inr service \<Rightarrow>
          (case messages_list mb query of
             Inl e \<Rightarrow> Inl e
           | Inr messages \<Rightarrow>
               (case messages of
                  [] \<Rightarrow> Inr None
                | msg_id # others \<Rightarrow>
                    (case messages_get mb msg_id of
                       Inl e \<Rightarrow> Inl e
                     | Inr msg \<Rightarrow>
                         (case payload msg of
                            None \<Rightarrow> Inl KeyError
                          | Some p \<Rightarrow>
                              (case headers p of
                                 None \<Rightarrow> Inl KeyError
                               | Some hs \<Rightarrow> extract_otp dec dg wd msg))))))"

section \<open>pages/base\_page.py and pages/dashbaord\_page.py\<close>

record base_page =
  page :: browser
  base_url :: "string option"
  default_timeout :: int

text \<open>
  \<open>Hitclick\<close>: \<open>timeout or self.default_timeout\<close> is the default when the
  argument is \<open>None\<close> or zero.
\<close>

definition Hitclick ::
  "base_page \<Rightarrow> string \<Rightarrow> int option \<Rightarrow> bool \<Rightarrow> event list \<Rightarrow> (exn + unit) \<times> event list" where
  "Hitclick self selector timeout force tr =
     (let timeout' = (case timeout of
                        None \<Rightarrow> default_timeout self
                      | Some t \<Rightarrow> if t = 0 then default_timeout self else t)
      in calls (page self)
           [LocatorWaitFor selector ''visible'' timeout',
            LocatorClick selector timeout' force] tr)"

text \<open>
  \<open>safe_click\<close>. The loop runs \<open>range(retries)\<close>, carrying \<open>last_exc\<close>.
  \<open>except Exception\<close> lets a \<open>BaseException\<close> through;
  \<open>time.sleep\<close> raises \<open>ValueError\<close> on a negative delay; after the loop
  \<open>raise last_exc\<close> raises \<open>TypeError\<close> when \<open>last_exc\<close> is still
  \<open>None\<close>. The argument \<open>timeout\<close> does not occur in the body.
\<close>

fun safe_click_loop ::
  "base_page \<Rightarrow> string \<Rightarrow> real \<Rightarrow> nat \<Rightarrow> exn option \<Rightarrow> event list \<Rightarrow>
   (exn + unit) \<times> event list" where
  "safe_click_loop self selector retry_delay 0 last_exc tr =
     (case last_exc of None \<Rightarrow> (Inl TypeError, tr) | Some e \<Rightarrow> (Inl e, tr))"
| "safe_click_loop self selector retry_delay (Suc n) last_exc tr =
     (case Hitclick self selector None False tr of
        (Inr u, tr') \<Rightarrow> (Inr (), tr')
      | (Inl e, tr') \<Rightarrow>
          if \<not> is_Exception e then (Inl e, tr')
          else if retry_delay < 0 then (Inl ValueError, tr')
          else safe_click_loop self selector retry_delay n (Some e) (tr' @ [Sleep retry_delay]))"

definition safe_click ::
  "base_page \<Rightarrow> string \<Rightarrow> int \<Rightarrow> real \<Rightarrow> int option \<Rightarrow> event list \<Rightarrow>
   (exn + unit) \<times> event list" where
  "safe_click self selector retries retry_delay timeout tr =
     safe_click_loop self selector retry_delay (nat retries) None tr"

definition type_text ::
  "base_page \<Rightarrow> string \<Rightarrow> string \<Rightarrow> event list \<Rightarrow> (exn + unit) \<times> event list" where
  "type_text self selector text tr =
     calls (page self) [WaitForSelector selector ''visible'' 20000, Fill selector text] tr"

text \<open>
  \<open>NavBarLinks\<close>. \<open>and_then\<close> runs the next statement when the one before
  returned. \<open>submit_email\<close> is the function up to the click on the continue
  button. After the code has been fetched, \<open>self.OTP_INPUT\<close> is looked up on
  the page object, which has no such attribute.
\<close>

definition and_then ::
  "(exn + unit) \<times> event list \<Rightarrow> (event list \<Rightarrow> (exn + 'a) \<times> event list) \<Rightarrow>
   (exn + 'a) \<times> event list" where
  "and_then m k = (case m of (Inl e, tr) \<Rightarrow> (Inl e, tr) | (Inr u, tr) \<Rightarrow> k tr)"

definition submit_email ::
  "base_page \<Rightarrow> string \<Rightarrow> event list \<Rightarrow> (exn + unit) \<times> event list" where
  "submit_email self email tr =
     and_then (call (page self) (WaitForSelector EMAIL_INPUT ''visible'' 30000) tr) (\<lambda>tr.
     and_then (type_text self EMAIL_INPUT email tr) (\<lambda>tr.
     and_then (call (page self) (WaitForSelector CONTINUE_BUTTON ''attached'' 30000) tr) (\<lambda>tr.
     safe_click self CONTINUE_BUTTON 3 0.25 (Some 30000) tr)))"

definition NavBarLinks ::
  "base_page \<Rightarrow> mailbox \<Rightarrow> (string \<Rightarrow> exn + 'c list) \<Rightarrow> ('c \<Rightarrow> bool) \<Rightarrow> ('c \<Rightarrow> bool) \<Rightarrow>
   string \<Rightarrow> event list \<Rightarrow> (exn + unit) \<times> event list" where
  "NavBarLinks self mb dec dg wd email tr =
     and_then (submit_email self email tr) (\<lambda>tr.
     and_then (call (page self) (WaitForSelector OTP_INPUT ''visible'' 120000) tr) (\<lambda>tr.
       (case get_latest_email mb dec dg wd ''subject:code'' of
          Inl e \<Rightarrow> (Inl e, tr @ [GetLatestEmail ''subject:code''])
        | Inr None \<Rightarrow> (Inl Failed, tr @ [GetLatestEmail ''subject:code''])
        | Inr (Some otp_code) \<Rightarrow>
            if otp_code = [] then (Inl Failed, tr @ [GetLatestEmail ''subject:code''])
            else (Inl AttributeError, tr @ [GetLatestEmail ''subject:code'']))))"

text \<open>
  Example inputs: a mailbox without token and client secrets files, a mailbox
  with a valid token and no message, and a page on which the first wait for
  the OTP input times out and every later call returns.
\<close>

definition missing_credentials :: mailbox where
  "missing_credentials =
     \<lparr>token_file = NoToken, client_secrets_file = Missing, refresh_result = None,
      run_local_server_result = None, token_write_result = None, build_result = None,
      messages_list = (\<lambda>q. Inr []), messages_get = (\<lambda>i. Inl HttpError)\<rparr>"

definition invalid_credentials :: mailbox where
  "invalid_credentials = missing_credentials\<lparr>client_secrets_file := Invalid\<rparr>"

definition empty_mailbox :: mailbox where
  "empty_mailbox = missing_credentials\<lparr>token_file := Token (Credentials True False True)\<rparr>"

definition otp_field_late :: browser where
  "otp_field_late tr ev =
     (if ev = WaitForSelector OTP_INPUT ''visible'' 120000 \<and> ev \<notin> set tr
      then Some TimeoutError else None)"

definition always_times_out :: browser where
  "always_times_out tr ev = Some TimeoutError"

fun click_event :: "string \<Rightarrow> int \<Rightarrow> real \<Rightarrow> event \<Rightarrow> bool" where
  "click_event selector t d (LocatorWaitFor s st t') = (s = selector \<and> st = ''visible'' \<and> t' = t)"
| "click_event selector t d (LocatorClick s t' force) = (s = selector \<and> t' = t \<and> \<not> force)"
| "click_event selector t d (Sleep d') = (d' = d)"
| "click_event selector t d _ = False"

section \<open>Properties of the OTP pattern\<close>

lemma list_all_take_drop:
  "i + n \<le> length xs \<Longrightarrow> list_all P (take n (drop i xs)) = (\<forall>j<n. P (xs ! (i + j)))"
  by (simp add: list_all_length min_absorb2)

lemma digit_run_nth:
  "digit_run dg text i n \<Longrightarrow> j < n \<Longrightarrow> dg (text ! (i + j))"
  using list_all_take_drop [of i n "text" dg] unfolding digit_run_def by auto

lemma digit_run_start_le:
  assumes a: "digit_run dg text i n" and b: "digit_run dg text k m"
    and o2: "k < i + n"
  shows "k \<le> i"
proof (rule ccontr)
  assume "\<not> k \<le> i"
  then have ik: "i < k" by simp
  then have "k - 1 - i < n" using o2 by arith
  from digit_run_nth [OF a this] ik have "dg (text ! (k - 1))" by simp
  moreover from b ik have "\<not> dg (text ! (k - 1))" unfolding digit_run_def by auto
  ultimately show False by simp
qed

lemma digit_run_len_le:
  assumes a: "digit_run dg text i n" and b: "digit_run dg text i m"
  shows "m \<le> n"
proof (rule ccontr)
  assume "\<not> m \<le> n"
  then have nm: "n < m" by simp
  from digit_run_nth [OF b nm] have "dg (text ! (i + n))" .
  moreover from b nm have "i + n < length text" unfolding digit_run_def by arith
  ultimately show False using a unfolding digit_run_def by auto
qed

lemma digit_run_overlap:
  assumes a: "digit_run dg text i n" and b: "digit_run dg text k m"
    and o1: "i < k + m" and o2: "k < i + n"
  shows "i = k \<and> n = m"
proof -
  have "k \<le> i" using digit_run_start_le [OF a b o2] .
  moreover have "i \<le> k" using digit_run_start_le [OF b a o1] .
  ultimately have e: "i = k" by simp
  with a b have "m \<le> n" "n \<le> m" using digit_run_len_le by blast+
  with e show ?thesis by simp
qed

lemma re_search_otp_Some:
  assumes "re_search_otp dg wd text = Some (i, code)"
  shows "otp_match_at dg wd text i \<and> code = take 6 (drop i text) \<and> (\<forall>j<i. \<not> otp_match_at dg wd text j)"
proof -
  from assms obtain k where f: "find (otp_match_at dg wd text) [0..<Suc (length text)] = Some k"
    and ik: "i = k" and c: "code = take 6 (drop i text)"
    unfolding re_search_otp_def by (auto split: option.splits)
  from f obtain q where q: "q < length [0..<Suc (length text)]"
     "otp_match_at dg wd text ([0..<Suc (length text)] ! q)"
     "k = [0..<Suc (length text)] ! q" 
     "\<forall>j<q. \<not> otp_match_at dg wd text ([0..<Suc (length text)] ! j)"
    unfolding find_Some_iff by blast
  have qk: "q = k" using q(1,3) by (simp del: upt_Suc)
  have "\<forall>j<k. \<not> otp_match_at dg wd text j"
  proof (intro allI impI)
    fix j assume "j < k"
    then have "j < q" using qk by simp
    with q(4) have "\<not> otp_match_at dg wd text ([0..<Suc (length text)] ! j)" by blast
    moreover have "[0..<Suc (length text)] ! j = j" using \<open>j < q\<close> q(1) by (simp del: upt_Suc)
    ultimately show "\<not> otp_match_at dg wd text j" by simp
  qed
  moreover have "otp_match_at dg wd text k" using q(2,3) by simp
  ultimately show ?thesis using ik c by simp
qed

lemma re_search_otp_None:
  assumes "re_search_otp dg wd text = None"
  shows "\<not> otp_match_at dg wd text j"
proof
  assume m: "otp_match_at dg wd text j"
  then have "j + 6 \<le> length text" unfolding otp_match_at_def by simp
  then have "j \<in> set [0..<Suc (length text)]" by simp
  with m have "find (otp_match_at dg wd text) [0..<Suc (length text)] \<noteq> None"
    unfolding find_None_iff by blast
  with assms show False unfolding re_search_otp_def by (auto split: option.splits)
qed

lemma otp_match_at_digit_run:
  assumes dw: "\<forall>c. dg c \<longrightarrow> wd c" and m: "otp_match_at dg wd text i"
  shows "digit_run dg text i 6"
proof -
  from m have len: "i + 6 \<le> length text" and all: "list_all dg (take 6 (drop i text))"
    and b1: "word_boundary wd text i" and b2: "word_boundary wd text (i + 6)"
    unfolding otp_match_at_def by simp_all
  have d: "\<And>j. j < 6 \<Longrightarrow> dg (text ! (i + j))" using all len by (simp add: list_all_take_drop)
  have "dg (text ! (i + 0))" by (rule d) simp
  then have w0: "wd (text ! i)" using dw by simp
  have "dg (text ! (i + 5))" by (rule d) simp
  then have w5: "wd (text ! (i + 5))" using dw by blast
  have l: "i = 0 \<or> \<not> wd (text ! (i - 1))"
    using b1 w0 len unfolding word_boundary_def by auto
  have "i + 6 - 1 = i + 5" by simp
  with w5 have "wd (text ! (i + 6 - 1))" by (simp only:)
  moreover have "0 < i + 6" by simp
  ultimately have "\<not> (i + 6 < length text \<and> wd (text ! (i + 6)))"
    using b2 unfolding word_boundary_def by blast
  then have r: "i + 6 = length text \<or> \<not> wd (text ! (i + 6))"
    using len by (cases "i + 6 = length text") simp_all
  show ?thesis unfolding digit_run_def using len all l r dw by auto
qed

lemma ascii_digit_word: "\<forall>c. ascii_digit c \<longrightarrow> ascii_word c"
  unfolding ascii_digit_def ascii_word_def by auto

lemma extract_otp_text:
  "extract_text_from_message dec msg = Inr text \<Longrightarrow>
   extract_otp dec dg wd msg = Inr (map_option snd (re_search_otp dg wd text))"
  unfolding extract_otp_def by (simp split: option.splits)

lemma extract_otp_sound:
  assumes dw: "\<forall>c. dg c \<longrightarrow> wd c"
    and tx: "extract_text_from_message dec msg = Inr text"
  shows "(\<forall>code. extract_otp dec dg wd msg = Inr (Some code) \<longrightarrow>
           (\<exists>i. re_search_otp dg wd text = Some (i, code) \<and> digit_run dg text i 6 \<and>
                code = take 6 (drop i text) \<and> length code = 6 \<and> list_all dg code \<and>
                word_boundary wd text i \<and> word_boundary wd text (i + 6)))
       \<and> (\<forall>i code k n. re_search_otp dg wd text = Some (i, code) \<and> digit_run dg text k n \<and> n \<noteq> 6
             \<longrightarrow> i + 6 \<le> k \<or> k + n \<le> i)
       \<and> ((\<forall>k n. digit_run dg text k n \<longrightarrow> n \<noteq> 6) \<longrightarrow> extract_otp dec dg wd msg = Inr None)
       \<and> (\<forall>dec' msg'. extract_text_from_message dec' msg' = Inr ''Your code is 482913. Expires in 10 minutes.''
             \<longrightarrow> extract_otp dec' ascii_digit ascii_word msg' = Inr (Some ''482913''))
       \<and> (\<forall>dec' msg'. extract_text_from_message dec' msg' = Inr ''Order #1234567 shipped''
             \<longrightarrow> extract_otp dec' ascii_digit ascii_word msg' = Inr None)"
proof (intro conjI allI impI)
  fix code
  assume "extract_otp dec dg wd msg = Inr (Some code)"
  with extract_otp_text [OF tx, of dg wd]
  have "map_option snd (re_search_otp dg wd text) = Some code" by simp
  then obtain i where s: "re_search_otp dg wd text = Some (i, code)"
    by (cases "re_search_otp dg wd text") auto
  from re_search_otp_Some [OF s] have m: "otp_match_at dg wd text i"
    and c: "code = take 6 (drop i text)" by simp_all
  from otp_match_at_digit_run [OF dw m] have r: "digit_run dg text i 6" .
  from m have "i + 6 \<le> length text" "list_all dg (take 6 (drop i text))"
    "word_boundary wd text i" "word_boundary wd text (i + 6)"
    unfolding otp_match_at_def by simp_all
  with s r c show "\<exists>i. re_search_otp dg wd text = Some (i, code) \<and> digit_run dg text i 6 \<and>
                code = take 6 (drop i text) \<and> length code = 6 \<and> list_all dg code \<and>
                word_boundary wd text i \<and> word_boundary wd text (i + 6)"
    by (intro exI [of _ i]) simp
next
  fix i code k n
  assume a: "re_search_otp dg wd text = Some (i, code) \<and> digit_run dg text k n \<and> n \<noteq> 6"
  then have m: "otp_match_at dg wd text i" using re_search_otp_Some by blast
  from otp_match_at_digit_run [OF dw m] have r: "digit_run dg text i 6" .
  show "i + 6 \<le> k \<or> k + n \<le> i"
  proof (rule ccontr)
    assume "\<not> (i + 6 \<le> k \<or> k + n \<le> i)"
    then have "i < k + n" "k < i + 6" by simp_all
    from digit_run_overlap [OF r _ this] a show False by blast
  qed
next
  assume no: "\<forall>k n. digit_run dg text k n \<longrightarrow> n \<noteq> 6"
  have "re_search_otp dg wd text = None"
  proof (cases "re_search_otp dg wd text")
    case None then show ?thesis .
  next
    case (Some m)
    then have "re_search_otp dg wd text = Some (fst m, snd m)" by simp
    from re_search_otp_Some [OF this] have "otp_match_at dg wd text (fst m)" by simp
    from otp_match_at_digit_run [OF dw this] no show ?thesis by blast
  qed
  with extract_otp_text [OF tx, of dg wd] show "extract_otp dec dg wd msg = Inr None" by simp
next
  fix dec' :: "string \<Rightarrow> exn + string" and msg'
  assume t: "extract_text_from_message dec' msg' = Inr ''Your code is 482913. Expires in 10 minutes.''"
  have "re_search_otp ascii_digit ascii_word ''Your code is 482913. Expires in 10 minutes.'' = Some (13, ''482913'')"
    by code_simp
  with extract_otp_text [OF t, of ascii_digit ascii_word]
  show "extract_otp dec' ascii_digit ascii_word msg' = Inr (Some ''482913'')" by simp
next
  fix dec' :: "string \<Rightarrow> exn + string" and msg'
  assume t: "extract_text_from_message dec' msg' = Inr ''Order #1234567 shipped''"
  have "re_search_otp ascii_digit ascii_word ''Order #1234567 shipped'' = None"
    by code_simp
  with extract_otp_text [OF t, of ascii_digit ascii_word]
  show "extract_otp dec' ascii_digit ascii_word msg' = Inr None" by simp
qed

lemma otp_match_at_iff:
  assumes dw: "\<forall>c. dg c \<longrightarrow> wd c"
  shows "otp_match_at dg wd text i =
     (digit_run dg text i 6 \<and> word_boundary wd text i \<and> word_boundary wd text (i + 6))"
proof
  assume m: "otp_match_at dg wd text i"
  from otp_match_at_digit_run [OF dw m] m
  show "digit_run dg text i 6 \<and> word_boundary wd text i \<and> word_boundary wd text (i + 6)"
    unfolding otp_match_at_def by simp
next
  assume "digit_run dg text i 6 \<and> word_boundary wd text i \<and> word_boundary wd text (i + 6)"
  then show "otp_match_at dg wd text i"
    unfolding otp_match_at_def digit_run_def by simp
qed

lemma re_search_otp_complete:
  assumes m: "otp_match_at dg wd text i"
  shows "\<exists>j\<le>i. re_search_otp dg wd text = Some (j, take 6 (drop j text)) \<and>
           otp_match_at dg wd text j \<and> (\<forall>k<j. \<not> otp_match_at dg wd text k)"
proof (cases "re_search_otp dg wd text")
  case None
  from re_search_otp_None [OF None, of i] m show ?thesis by simp
next
  case (Some p)
  then have s: "re_search_otp dg wd text = Some (fst p, snd p)" by simp
  from re_search_otp_Some [OF s]
  have j: "otp_match_at dg wd text (fst p)" "snd p = take 6 (drop (fst p) text)"
    "\<forall>k<fst p. \<not> otp_match_at dg wd text k" by simp_all
  have "fst p \<le> i"
  proof (rule ccontr)
    assume "\<not> fst p \<le> i"
    then have "i < fst p" by simp
    with j(3) m show False by simp
  qed
  with s j show ?thesis by auto
qed

text \<open>
  Claim C1, as stated, fails: the body \<open>code482913\<close> holds a run of exactly six
  digits bounded by a non-digit character and by the end of the text, and
  \<open>extract_otp\<close> returns nothing from it, because the letter before the run
  is a word character and \<open>\b\<close> does not hold there.
\<close>

theorem letter_adjacent_run_not_returned_counterexample:
  "digit_run ascii_digit ''code482913'' 4 6 \<and>
   extract_otp Inr ascii_digit ascii_word
     (Message (Some (Part (Some ''text/plain'') (Some (Body (Some ''code482913''))) None None)) None)
     = Inr None"
proof -
  have "re_search_otp ascii_digit ascii_word ''code482913'' = None" by code_simp
  moreover have "digit_run ascii_digit ''code482913'' 4 6" by code_simp
  ultimately show ?thesis
    by (simp add: extract_otp_def extract_text_from_message_def)
qed

text \<open>
  Claim C1, amended. \<open>extract_otp\<close> returns a code exactly when the decoded
  body has a run of exactly six digits with a word boundary on each side, and
  then it returns the first such run; what it returns is bounded by non-digit
  characters or the ends of the text; a match never overlaps a digit run of
  another length, so a body whose digit runs are all longer or shorter than
  six yields no code; the body \<open>Your code is 482913. Expires in 10 minutes.\<close>
  yields \<open>482913\<close> and \<open>Order #1234567 shipped\<close> yields nothing. The hypothesis
  says that every \<open>\d\<close> character is a \<open>\w\<close> character, as in Python.
\<close>

theorem extract_otp_word_bounded_run:
  assumes dw: "\<forall>c. dg c \<longrightarrow> wd c"
    and tx: "extract_text_from_message dec msg = Inr text"
  shows "(\<forall>code. extract_otp dec dg wd msg = Inr (Some code) \<longrightarrow>
           (\<exists>i. re_search_otp dg wd text = Some (i, code) \<and> digit_run dg text i 6 \<and>
                code = take 6 (drop i text) \<and> length code = 6 \<and> list_all dg code \<and>
                word_boundary wd text i \<and> word_boundary wd text (i + 6)))
       \<and> (\<forall>i code k n. re_search_otp dg wd text = Some (i, code) \<and> digit_run dg text k n \<and> n \<noteq> 6
             \<longrightarrow> i + 6 \<le> k \<or> k + n \<le> i)
       \<and> ((\<forall>k n. digit_run dg text k n \<longrightarrow> n \<noteq> 6) \<longrightarrow> extract_otp dec dg wd msg = Inr None)
       \<and> (\<forall>i. digit_run dg text i 6 \<and> word_boundary wd text i \<and> word_boundary wd text (i + 6)
             \<longrightarrow> (\<exists>j\<le>i. extract_otp dec dg wd msg = Inr (Some (take 6 (drop j text))) \<and>
                    digit_run dg text j 6 \<and> word_boundary wd text j \<and>
                    word_boundary wd text (j + 6) \<and>
                    (\<forall>k<j. \<not> (digit_run dg text k 6 \<and> word_boundary wd text k \<and>
                                word_boundary wd text (k + 6)))))
       \<and> ((extract_otp dec dg wd msg = Inr None) =
            (\<forall>i. \<not> (digit_run dg text i 6 \<and> word_boundary wd text i \<and>
                      word_boundary wd text (i + 6))))
       \<and> (\<forall>dec' msg'. extract_text_from_message dec' msg' = Inr ''Your code is 482913. Expires in 10 minutes.''
             \<longrightarrow> extract_otp dec' ascii_digit ascii_word msg' = Inr (Some ''482913''))
       \<and> (\<forall>dec' msg'. extract_text_from_message dec' msg' = Inr ''Order #1234567 shipped''
             \<longrightarrow> extract_otp dec' ascii_digit ascii_word msg' = Inr None)"
proof -
  note iff = otp_match_at_iff [OF dw]
  have sound: "(\<forall>code. extract_otp dec dg wd msg = Inr (Some code) \<longrightarrow>
           (\<exists>i. re_search_otp dg wd text = Some (i, code) \<and> digit_run dg text i 6 \<and>
                code = take 6 (drop i text) \<and> length code = 6 \<and> list_all dg code \<and>
                word_boundary wd text i \<and> word_boundary wd text (i + 6)))
       \<and> (\<forall>i code k n. re_search_otp dg wd text = Some (i, code) \<and> digit_run dg text k n \<and> n \<noteq> 6
             \<longrightarrow> i + 6 \<le> k \<or> k + n \<le> i)
       \<and> ((\<forall>k n. digit_run dg text k n \<longrightarrow> n \<noteq> 6) \<longrightarrow> extract_otp dec dg wd msg = Inr None)
       \<and> (\<forall>dec' msg'. extract_text_from_message dec' msg' = Inr ''Your code is 482913. Expires in 10 minutes.''
             \<longrightarrow> extract_otp dec' ascii_digit ascii_word msg' = Inr (Some ''482913''))
       \<and> (\<forall>dec' msg'. extract_text_from_message dec' msg' = Inr ''Order #1234567 shipped''
             \<longrightarrow> extract_otp dec' ascii_digit ascii_word msg' = Inr None)"
    by (rule extract_otp_sound [OF dw tx])
  have complete: "\<forall>i. digit_run dg text i 6 \<and> word_boundary wd text i \<and> word_boundary wd text (i + 6)
             \<longrightarrow> (\<exists>j\<le>i. extract_otp dec dg wd msg = Inr (Some (take 6 (drop j text))) \<and>
                    digit_run dg text j 6 \<and> word_boundary wd text j \<and>
                    word_boundary wd text (j + 6) \<and>
                    (\<forall>k<j. \<not> (digit_run dg text k 6 \<and> word_boundary wd text k \<and>
                                word_boundary wd text (k + 6))))"
  proof (intro allI impI)
    fix i
    assume "digit_run dg text i 6 \<and> word_boundary wd text i \<and> word_boundary wd text (i + 6)"
    then have "otp_match_at dg wd text i" by (rule iffD2 [OF iff])
    from re_search_otp_complete [OF this] obtain j where j: "j \<le> i"
      "re_search_otp dg wd text = Some (j, take 6 (drop j text))"
      "otp_match_at dg wd text j" "\<forall>k<j. \<not> otp_match_at dg wd text k" by blast
    from j(2) extract_otp_text [OF tx, of dg wd]
    have "extract_otp dec dg wd msg = Inr (Some (take 6 (drop j text)))" by simp
    moreover from j(3) have "digit_run dg text j 6 \<and> word_boundary wd text j \<and>
                    word_boundary wd text (j + 6)" by (rule iffD1 [OF iff])
    moreover have "\<forall>k<j. \<not> (digit_run dg text k 6 \<and> word_boundary wd text k \<and>
                                word_boundary wd text (k + 6))"
    proof (intro allI impI notI)
      fix k assume kj: "k < j"
        and r: "digit_run dg text k 6 \<and> word_boundary wd text k \<and> word_boundary wd text (k + 6)"
      from r have "otp_match_at dg wd text k" by (rule iffD2 [OF iff])
      with j(4) kj show False by simp
    qed
    ultimately show "\<exists>j\<le>i. extract_otp dec dg wd msg = Inr (Some (take 6 (drop j text))) \<and>
                    digit_run dg text j 6 \<and> word_boundary wd text j \<and>
                    word_boundary wd text (j + 6) \<and>
                    (\<forall>k<j. \<not> (digit_run dg text k 6 \<and> word_boundary wd text k \<and>
                                word_boundary wd text (k + 6)))"
      using j(1) by (intro exI [of _ j]) simp
  qed
  have none: "(extract_otp dec dg wd msg = Inr None) =
            (\<forall>i. \<not> (digit_run dg text i 6 \<and> word_boundary wd text i \<and>
                      word_boundary wd text (i + 6)))"
  proof
    assume n: "extract_otp dec dg wd msg = Inr None"
    show "\<forall>i. \<not> (digit_run dg text i 6 \<and> word_boundary wd text i \<and> word_boundary wd text (i + 6))"
    proof (intro allI notI)
      fix i
      assume "digit_run dg text i 6 \<and> word_boundary wd text i \<and> word_boundary wd text (i + 6)"
      with complete obtain j where "extract_otp dec dg wd msg = Inr (Some (take 6 (drop j text)))"
        by blast
      with n show False by simp
    qed
  next
    assume a: "\<forall>i. \<not> (digit_run dg text i 6 \<and> word_boundary wd text i \<and>
                      word_boundary wd text (i + 6))"
    have "re_search_otp dg wd text = None"
    proof (cases "re_search_otp dg wd text")
      case None then show ?thesis .
    next
      case (Some p)
      then have "re_search_otp dg wd text = Some (fst p, snd p)" by simp
      from re_search_otp_Some [OF this] have "otp_match_at dg wd text (fst p)" by simp
      then have "digit_run dg text (fst p) 6 \<and> word_boundary wd text (fst p) \<and>
                    word_boundary wd text (fst p + 6)" by (rule iffD1 [OF iff])
      with a show ?thesis by blast
    qed
    with extract_otp_text [OF tx, of dg wd] show "extract_otp dec dg wd msg = Inr None" by simp
  qed
  from sound complete none show ?thesis by (elim conjE, intro conjI) assumption+
qed

theorem extract_otp_word_bounded_run_witness:
  "extract_text_from_message Inr
     (Message (Some (Part (Some ''text/plain'')
        (Some (Body (Some ''Your code is 482913. Expires in 10 minutes.''))) None None)) None)
     = Inr ''Your code is 482913. Expires in 10 minutes.'' \<and>
   digit_run ascii_digit ''Your code is 482913. Expires in 10 minutes.'' 13 6 \<and>
   word_boundary ascii_word ''Your code is 482913. Expires in 10 minutes.'' 13 \<and>
   word_boundary ascii_word ''Your code is 482913. Expires in 10 minutes.'' (13 + 6) \<and>
   (\<exists>j\<le>13. extract_otp Inr ascii_digit ascii_word
      (Message (Some (Part (Some ''text/plain'')
        (Some (Body (Some ''Your code is 482913. Expires in 10 minutes.''))) None None)) None)
      = Inr (Some (take 6 (drop j ''Your code is 482913. Expires in 10 minutes.''))))"
proof -
  let ?T = "''Your code is 482913. Expires in 10 minutes.''"
  let ?M = "Message (Some (Part (Some ''text/plain'') (Some (Body (Some ?T))) None None)) None"
  have h1: "\<forall>c. ascii_digit c \<longrightarrow> ascii_word c" by (rule ascii_digit_word)
  have h2: "extract_text_from_message Inr ?M = Inr ?T"
    by (simp add: extract_text_from_message_def)
  have h3: "digit_run ascii_digit ?T 13 6" by code_simp
  have h4: "word_boundary ascii_word ?T 13" by code_simp
  have h5: "word_boundary ascii_word ?T (13 + 6)" by code_simp
  have e: "\<exists>j\<le>13. extract_otp Inr ascii_digit ascii_word ?M = Inr (Some (take 6 (drop j ?T)))"
  proof -
    from extract_otp_word_bounded_run [OF h1 h2, THEN conjunct2, THEN conjunct2, THEN conjunct2,
        THEN conjunct1, THEN spec, THEN mp, OF conjI [OF h3 conjI [OF h4 h5]]]
    obtain j where "j \<le> 13"
      "extract_otp Inr ascii_digit ascii_word ?M = Inr (Some (take 6 (drop j ?T)))"
      by (elim exE conjE)
    then show ?thesis by (intro exI [of _ j] conjI)
  qed
  show ?thesis by (intro conjI) (rule h2 h3 h4 h5 e)+
qed

section \<open>Properties of the text extraction\<close>

lemma extract_text_nonempty_parts:
  "qs \<noteq> [] \<Longrightarrow> extract_text_from_payload dec (Part mt b (Some qs) hs) =
     (case scan_parts dec qs of Some r \<Rightarrow> r | None \<Rightarrow> Inr [])"
  by (cases qs) simp_all

lemma extract_text_no_parts:
  "ps = None \<or> ps = Some [] \<Longrightarrow> extract_text_from_payload dec (Part mt b ps hs) =
     (case b of Some (Body (Some d)) \<Rightarrow> dec d | _ \<Rightarrow> Inr [])"
  by auto

lemma regular_plain_text_data: "regular_part p \<Longrightarrow> plain_text_data p \<noteq> Inl e"
  by (cases p) (auto simp: plain_text_data_def split: option.splits)

lemma scan_parts_regular:
  assumes el: "\<forall>p \<in> set ps. \<forall>qs. parts p = Some qs \<longrightarrow>
      (concat (map plain_datas qs) = [] \<longrightarrow> extract_text_from_payload dec p = Inr []) \<and>
      (\<forall>d. concat (map plain_datas qs) = [d] \<longrightarrow> extract_text_from_payload dec p = dec d)"
    and reg: "list_all regular_part ps"
  shows "(concat (map plain_datas ps) = [] \<longrightarrow> scan_parts dec ps = None) \<and>
         (\<forall>d. concat (map plain_datas ps) = [d] \<longrightarrow>
            scan_parts dec ps = Some (dec d) \<or> (dec d = Inr [] \<and> scan_parts dec ps = None))"
  using el reg
proof (induction ps)
  case Nil
  then show ?case by simp
next
  case (Cons p rest)
  then have ih: "(concat (map plain_datas rest) = [] \<longrightarrow> scan_parts dec rest = None) \<and>
         (\<forall>d. concat (map plain_datas rest) = [d] \<longrightarrow>
            scan_parts dec rest = Some (dec d) \<or> (dec d = Inr [] \<and> scan_parts dec rest = None))"
    by simp
  from Cons.prems have rp: "regular_part p" by simp
  from Cons.prems have elp: "\<forall>qs. parts p = Some qs \<longrightarrow>
      (concat (map plain_datas qs) = [] \<longrightarrow> extract_text_from_payload dec p = Inr []) \<and>
      (\<forall>d. concat (map plain_datas qs) = [d] \<longrightarrow> extract_text_from_payload dec p = dec d)"
    by simp
  obtain mt b ps hs where p: "p = Part mt b ps hs" by (cases p)
  from regular_plain_text_data [OF rp]
  consider (hit) d' where "plain_text_data p = Inr (Some d')" | (miss) "plain_text_data p = Inr None"
    by (cases "plain_text_data p") auto
  then show ?case
  proof cases
    case hit
    then have "plain_datas p = d' # (case ps of None \<Rightarrow> [] | Some qs \<Rightarrow> concat (map plain_datas qs))"
      using p by simp
    then show ?thesis using hit by auto
  next
    case miss
    show ?thesis
    proof (cases ps)
      case None
      then have "plain_datas p = []" using miss p by simp
      moreover have "scan_parts dec (p # rest) = scan_parts dec rest" using miss None p by simp
      ultimately show ?thesis using ih by simp
    next
      case (Some qs)
      then have pd: "plain_datas p = concat (map plain_datas qs)" using miss p by simp
      from Some p elp have e0: "concat (map plain_datas qs) = [] \<Longrightarrow> extract_text_from_payload dec p = Inr []"
        and e1: "\<And>d. concat (map plain_datas qs) = [d] \<Longrightarrow> extract_text_from_payload dec p = dec d"
        by simp_all
      have sc: "scan_parts dec (p # rest) =
         (case extract_text_from_payload dec p of
                  Inl e \<Rightarrow> Some (Inl e)
                | Inr result \<Rightarrow>
                    if result \<noteq> [] then Some (Inr result) else scan_parts dec rest)"
        using miss Some p by simp
      show ?thesis
      proof (intro conjI allI impI)
        assume "concat (map plain_datas (p # rest)) = []"
        then have "concat (map plain_datas qs) = []" "concat (map plain_datas rest) = []"
          using pd by simp_all
        with e0 ih sc show "scan_parts dec (p # rest) = None" by simp
      next
        fix d assume "concat (map plain_datas (p # rest)) = [d]"
        then have "concat (map plain_datas qs) @ concat (map plain_datas rest) = [d]"
          using pd by simp
        then consider (l) "concat (map plain_datas qs) = [d]" "concat (map plain_datas rest) = []"
          | (r) "concat (map plain_datas qs) = []" "concat (map plain_datas rest) = [d]"
          by (auto simp: append_eq_Cons_conv)
        then show "scan_parts dec (p # rest) = Some (dec d) \<or> (dec d = Inr [] \<and> scan_parts dec (p # rest) = None)"
        proof cases
          case l
          with e1 ih have "extract_text_from_payload dec p = dec d" "scan_parts dec rest = None" by simp_all
          with sc show ?thesis by (cases "dec d") auto
        next
          case r
          with e0 ih sc show ?thesis by auto
        qed
      qed
    qed
  qed
qed

lemma extract_text_regular:
  "regular_part p \<Longrightarrow> parts p = Some qs \<Longrightarrow>
      (concat (map plain_datas qs) = [] \<longrightarrow> extract_text_from_payload dec p = Inr []) \<and>
      (\<forall>d. concat (map plain_datas qs) = [d] \<longrightarrow> extract_text_from_payload dec p = dec d)"
proof (induction p arbitrary: qs)
  case (Part mt b ps hs)
  then have ps: "ps = Some qs" and reg: "list_all regular_part qs" by simp_all
  show ?case
  proof (cases "qs = []")
    case True
    with Part.prems ps have "extract_text_from_payload dec (Part mt b ps hs) = Inr []"
      by (auto split: option.splits body.splits)
    with True show ?thesis by simp
  next
    case False
    have "\<forall>p \<in> set qs. \<forall>qs'. parts p = Some qs' \<longrightarrow>
      (concat (map plain_datas qs') = [] \<longrightarrow> extract_text_from_payload dec p = Inr []) \<and>
      (\<forall>d. concat (map plain_datas qs') = [d] \<longrightarrow> extract_text_from_payload dec p = dec d)"
      using Part.IH ps reg by (auto simp: list_all_iff)
    from scan_parts_regular [OF this reg] extract_text_nonempty_parts [OF False, of dec mt b hs] ps
    show ?thesis by (auto split: option.splits)
  qed
qed

text \<open>
  Claim C4, as stated, fails: a message whose only body is text/html has no
  plain-text part anywhere, and \<open>extract_otp\<close> still returns a code from
  it, because the body of a message without parts is decoded whatever its
  MIME type.
\<close>

theorem no_plain_part_yields_code_counterexample:
  "plain_datas (Part (Some ''text/html'') (Some (Body (Some ''<b>731905</b>''))) None None) = [] \<and>
   extract_otp Inr ascii_digit ascii_word
     (Message (Some (Part (Some ''text/html'') (Some (Body (Some ''<b>731905</b>''))) None None)) None)
     = Inr (Some ''731905'')"
proof -
  have "re_search_otp ascii_digit ascii_word ''<b>731905</b>'' = Some (3, ''731905'')"
    by code_simp
  then show ?thesis
    by (simp add: extract_otp_def extract_text_from_message_def plain_text_data_def)
qed

text \<open>
  Claim C4, amended. For a message whose payload has a non-empty list of
  regular parts: when exactly one part anywhere below the payload is
  text/plain with data, \<open>extract_text_from_message\<close> returns that part's
  decoded text (or raises its decoding error), however deeply it is nested;
  when no part below the payload is text/plain with data, it returns the empty
  text and \<open>extract_otp\<close> returns \<open>None\<close>.
\<close>

theorem extract_text_nested_plain:
  assumes ne: "qs \<noteq> []" and reg: "list_all regular_part qs"
  shows "(\<forall>d. concat (map plain_datas qs) = [d] \<longrightarrow>
            extract_text_from_message dec (Message (Some (Part mt b (Some qs) hs)) sn) = dec d) \<and>
         (concat (map plain_datas qs) = [] \<longrightarrow>
            extract_text_from_message dec (Message (Some (Part mt b (Some qs) hs)) sn) = Inr [] \<and>
            extract_otp dec dg wd (Message (Some (Part mt b (Some qs) hs)) sn) = Inr None)"
proof -
  have el: "\<forall>p \<in> set qs. \<forall>qs'. parts p = Some qs' \<longrightarrow>
      (concat (map plain_datas qs') = [] \<longrightarrow> extract_text_from_payload dec p = Inr []) \<and>
      (\<forall>d. concat (map plain_datas qs') = [d] \<longrightarrow> extract_text_from_payload dec p = dec d)"
    using extract_text_regular reg by (auto simp: list_all_iff)
  have top: "extract_text_from_message dec (Message (Some (Part mt b (Some qs) hs)) sn) =
     (case scan_parts dec qs of Some r \<Rightarrow> r | None \<Rightarrow> Inr [])"
    using extract_text_nonempty_parts [OF ne] by (simp add: extract_text_from_message_def)
  have none: "re_search_otp dg wd [] = None"
    by (simp add: re_search_otp_def otp_match_at_def)
  from scan_parts_regular [OF el reg] top none show ?thesis
    by (auto simp: extract_otp_def)
qed

theorem extract_text_nested_plain_witness:
  "extract_text_from_message Inr
     (Message (Some (Part (Some ''multipart/mixed'') (Some (Body None))
        (Some [Part (Some ''multipart/alternative'') (Some (Body None))
                 (Some [Part (Some ''text/html'') (Some (Body (Some ''<p>Hello</p>''))) None None,
                        Part (Some ''text/plain'') (Some (Body (Some ''Your code is 482913.''))) None None])
                 None])
        None)) None)
     = Inr ''Your code is 482913.'' \<and>
   extract_otp Inr ascii_digit ascii_word
     (Message (Some (Part (Some ''multipart/mixed'') (Some (Body None))
        (Some [Part (Some ''text/html'') (Some (Body (Some ''<p>482913</p>''))) None None])
        None)) None)
     = Inr None"
proof -
  let ?qs = "[Part (Some ''multipart/alternative'') (Some (Body None))
                 (Some [Part (Some ''text/html'') (Some (Body (Some ''<p>Hello</p>''))) None None,
                        Part (Some ''text/plain'') (Some (Body (Some ''Your code is 482913.''))) None None])
                 None]"
  let ?rs = "[Part (Some ''text/html'') (Some (Body (Some ''<p>482913</p>''))) None None]"
  have a1: "?qs \<noteq> []" by simp
  have a2: "list_all regular_part ?qs" by simp
  have a3: "concat (map plain_datas ?qs) = [''Your code is 482913.'']"
    by (simp add: plain_text_data_def)
  have b1: "?rs \<noteq> []" by simp
  have b2: "list_all regular_part ?rs" by simp
  have b3: "concat (map plain_datas ?rs) = []"
    by (simp add: plain_text_data_def)
  from extract_text_nested_plain [OF a1 a2, of Inr] a3
       extract_text_nested_plain [OF b1 b2, of Inr] b3
  show ?thesis by blast
qed

text \<open>
  Claim C9. For a message without parts (the \<open>parts\<close> key absent or
  empty) whose top-level body carries data, \<open>extract_text_from_message\<close>
  returns the decoding of that data whatever the MIME type \<open>mt\<close>, and
  \<open>extract_otp\<close> searches it; so a message whose only body is text/html
  yields a code.
\<close>

theorem simple_message_any_mime:
  "(ps = None \<or> ps = Some [] \<longrightarrow>
      extract_text_from_message dec (Message (Some (Part mt (Some (Body (Some d))) ps hs)) sn) = dec d \<and>
      extract_otp dec dg wd (Message (Some (Part mt (Some (Body (Some d))) ps hs)) sn) =
        (case dec d of Inl e \<Rightarrow> Inl e
         | Inr email_text \<Rightarrow> Inr (map_option snd (re_search_otp dg wd email_text)))) \<and>
   extract_otp Inr ascii_digit ascii_word
     (Message (Some (Part (Some ''text/html'') (Some (Body (Some ''<p>Code: 123456</p>''))) None None)) None)
     = Inr (Some ''123456'')"
proof -
  have "re_search_otp ascii_digit ascii_word ''<p>Code: 123456</p>'' = Some (9, ''123456'')"
    by code_simp
  then show ?thesis
    by (auto simp: extract_otp_def extract_text_from_message_def split: sum.splits option.splits)
qed

theorem simple_message_any_mime_witness:
  "extract_text_from_message Inr
     (Message (Some (Part (Some ''text/html'') (Some (Body (Some ''<p>Code: 123456</p>''))) (Some []) None)) None)
     = Inr ''<p>Code: 123456</p>''"
  using simple_message_any_mime [of "Some []" Inr "Some ''text/html''" "''<p>Code: 123456</p>''" None None]
  by simp

section \<open>Properties of the fixtures\<close>

lemma call_trace: "call respond ev tr = (r, tr') \<Longrightarrow> tr' = tr @ [ev]"
  by (auto simp: call_def split: option.splits)

lemma calls_trace: "calls respond evs tr = (r, tr') \<Longrightarrow> \<exists>k. tr' = tr @ take k evs"
proof (induction evs arbitrary: tr)
  case Nil
  then show ?case by simp
next
  case (Cons ev evs)
  obtain r1 tr1 where c: "call respond ev tr = (r1, tr1)" by (cases "call respond ev tr")
  then have t1: "tr1 = tr @ [ev]" by (rule call_trace)
  show ?case
  proof (cases r1)
    case (Inl e)
    with Cons.prems c have "tr' = tr1" by simp
    with t1 have "tr' = tr @ take 1 (ev # evs)" by simp
    then show ?thesis by blast
  next
    case (Inr u)
    with Cons.prems c have "calls respond evs tr1 = (r, tr')" by simp
    from Cons.IH [OF this] obtain k where "tr' = tr1 @ take k evs" by blast
    with t1 have "tr' = tr @ take (Suc k) (ev # evs)" by simp
    then show ?thesis by blast
  qed
qed

lemma calls_trace_first:
  assumes "calls respond (ev # evs) tr = (r, tr')"
  shows "\<exists>k. tr' = tr @ ev # take k evs"
proof -
  obtain r1 tr1 where c: "call respond ev tr = (r1, tr1)" by (cases "call respond ev tr")
  then have t1: "tr1 = tr @ [ev]" by (rule call_trace)
  show ?thesis
  proof (cases r1)
    case (Inl e)
    with assms c t1 have "tr' = tr @ ev # take 0 evs" by simp
    then show ?thesis by blast
  next
    case (Inr u)
    with assms c have "calls respond evs tr1 = (r, tr')" by simp
    from calls_trace [OF this] t1 show ?thesis by auto
  qed
qed

lemma calls_ok_trace: "calls respond evs tr = (Inr u, tr') \<Longrightarrow> tr' = tr @ evs"
proof (induction evs arbitrary: tr)
  case Nil
  then show ?case by simp
next
  case (Cons ev evs)
  obtain r1 tr1 where c: "call respond ev tr = (r1, tr1)" by (cases "call respond ev tr")
  then have t1: "tr1 = tr @ [ev]" by (rule call_trace)
  from Cons.prems c obtain u1 where "r1 = Inr u1" by (cases r1) auto
  with Cons.prems c have "calls respond evs tr1 = (Inr u, tr')" by simp
  from Cons.IH [OF this] t1 show ?case by simp
qed

lemma create_auth_state_reuse:
  "\<not> opt_recreate_auth pytestconfig \<Longrightarrow>
   create_auth_state pytestconfig playwright exported (Some c) =
     (Inr AUTH_STATE_FILE, Some c, [Print ''Using existing auth storage state.''])"
  by (simp add: create_auth_state_def)

text \<open>The shape of a bootstrap run.\<close>

lemma create_auth_state_bootstrap:
  assumes b: "fs = None \<or> opt_recreate_auth pytestconfig"
    and c: "create_auth_state pytestconfig playwright exported fs = (r, fs', tr)"
  shows "(\<exists>k. tr = [Print ''Creating new auth storage state...'',
                     Launch (browser_name_of (opt_browser pytestconfig))] @
                    take k [NewContext None, NewPage, AddInitScript,
                            Goto ''https://dmfluxury.com'', Sleep 150]) \<and>
           fs' = fs \<and> r \<noteq> Inr AUTH_STATE_FILE \<or>
         tr = [Print ''Creating new auth storage state...'',
               Launch (browser_name_of (opt_browser pytestconfig)),
               NewContext None, NewPage, AddInitScript,
               Goto ''https://dmfluxury.com'', Sleep 150,
               WriteStorageState AUTH_STATE_FILE] \<and>
           fs' = fs \<and> r \<noteq> Inr AUTH_STATE_FILE \<or>
         tr = [Print ''Creating new auth storage state...'',
               Launch (browser_name_of (opt_browser pytestconfig)),
               NewContext None, NewPage, AddInitScript,
               Goto ''https://dmfluxury.com'', Sleep 150,
               WriteStorageState AUTH_STATE_FILE, CloseContext] \<and>
           fs' = (case exported of None \<Rightarrow> fs | Some c \<Rightarrow> Some c)"
proof -
  let ?evs = "[NewContext None, NewPage, AddInitScript, Goto ''https://dmfluxury.com'', Sleep 150]"
  let ?L = "Launch (browser_name_of (opt_browser pytestconfig))"
  let ?P = "Print ''Creating new auth storage state...''"
  obtain r0 tr0 where c0: "calls playwright (?L # ?evs) [?P] = (r0, tr0)"
    by (cases "calls playwright (?L # ?evs) [?P]")
  show ?thesis
  proof (cases r0)
    case (Inl e)
    from calls_trace_first [OF c0] obtain k where k: "tr0 = [?P] @ ?L # take k ?evs" by blast
    from Inl b c c0 have "tr = tr0" "fs' = fs" "r = Inl e"
      by (auto simp: create_auth_state_def Let_def)
    with k have "(\<exists>k. tr = [?P, ?L] @ take k ?evs) \<and> fs' = fs \<and> r \<noteq> Inr AUTH_STATE_FILE"
      by auto
    then show ?thesis by blast
  next
    case (Inr u)
    with c0 have k: "tr0 = [?P] @ ?L # ?evs" using calls_ok_trace by blast
    obtain r1 tr1 where c1: "call playwright (WriteStorageState AUTH_STATE_FILE) tr0 = (r1, tr1)"
      by (cases "call playwright (WriteStorageState AUTH_STATE_FILE) tr0")
    then have t1: "tr1 = tr0 @ [WriteStorageState AUTH_STATE_FILE]" by (rule call_trace)
    show ?thesis
    proof (cases r1)
      case (Inl e)
      with b c c0 c1 Inr have "tr = tr1" "fs' = fs" "r = Inl e"
        by (auto simp: create_auth_state_def Let_def)
      with k t1 show ?thesis by simp
    next
      case r1: (Inr u1)
      obtain r2 tr2 where c2: "call playwright CloseContext tr1 = (r2, tr2)"
        by (cases "call playwright CloseContext tr1")
      then have t2: "tr2 = tr1 @ [CloseContext]" by (rule call_trace)
      from b c c0 c1 c2 Inr r1
      have "tr = tr2" "fs' = (case exported of None \<Rightarrow> fs | Some c \<Rightarrow> Some c)"
        by (auto simp: create_auth_state_def Let_def split: sum.splits if_splits)
      with k t1 t2 show ?thesis by simp
    qed
  qed
qed

text \<open>
  Claim C8. Whenever \<open>create_auth_state\<close> returns a path (does not raise),
  the path is the auth file's and the auth file exists in the file system it
  leaves behind.
\<close>

theorem create_auth_state_returns_existing_file:
  "create_auth_state pytestconfig playwright exported fs = (Inr path, fs', tr) \<Longrightarrow>
   path = AUTH_STATE_FILE \<and> fs' \<noteq> None"
  by (auto simp: create_auth_state_def Let_def split: if_splits prod.splits sum.splits option.splits)

theorem create_auth_state_returns_existing_file_witness:
  "create_auth_state default_config all_ok (Some (StorageState ''cookies'')) None =
     (Inr AUTH_STATE_FILE, Some (StorageState ''cookies''),
      [Print ''Creating new auth storage state...'', Launch Chromium,
       NewContext None, NewPage, AddInitScript, Goto ''https://dmfluxury.com'',
       Sleep 150, WriteStorageState AUTH_STATE_FILE, CloseContext]) \<and>
   Some (StorageState ''cookies'') \<noteq> None"
proof -
  have e: "create_auth_state default_config all_ok (Some (StorageState ''cookies'')) None =
     (Inr AUTH_STATE_FILE, Some (StorageState ''cookies''),
      [Print ''Creating new auth storage state...'', Launch Chromium,
       NewContext None, NewPage, AddInitScript, Goto ''https://dmfluxury.com'',
       Sleep 150, WriteStorageState AUTH_STATE_FILE, CloseContext])"
    by (simp add: create_auth_state_def default_config_def all_ok_def call_def browser_name_of_def)
  from create_auth_state_returns_existing_file [OF e] e show ?thesis by blast
qed

lemma filter_take_none:
  "\<forall>x \<in> set xs. \<not> P x \<Longrightarrow> filter P (take k xs) = []"
  by (auto simp: filter_empty_conv dest: in_set_takeD)

lemma create_auth_state_one_launch:
  "(fs \<noteq> None \<and> \<not> opt_recreate_auth pytestconfig \<longrightarrow>
      create_auth_state pytestconfig playwright exported fs =
        (Inr AUTH_STATE_FILE, fs, [Print ''Using existing auth storage state.'']) \<and>
      create_auth_state pytestconfig playwright2 exported2
          (fst (snd (create_auth_state pytestconfig playwright exported fs))) =
        (Inr AUTH_STATE_FILE, fs, [Print ''Using existing auth storage state.''])) \<and>
   (opt_recreate_auth pytestconfig \<longrightarrow>
      length (filter is_launch (snd (snd (create_auth_state pytestconfig playwright exported fs)))) = 1 \<and>
      length (filter (\<lambda>ev. ev = Print ''Creating new auth storage state...'')
                (snd (snd (create_auth_state pytestconfig playwright exported fs)))) = 1)"
proof (intro conjI impI)
  assume a: "fs \<noteq> None \<and> \<not> opt_recreate_auth pytestconfig"
  then obtain c where c: "fs = Some c" by auto
  with a create_auth_state_reuse
  show r1: "create_auth_state pytestconfig playwright exported fs =
        (Inr AUTH_STATE_FILE, fs, [Print ''Using existing auth storage state.''])"
    by simp
  from a c create_auth_state_reuse [of pytestconfig playwright2 exported2 c] r1
  show "create_auth_state pytestconfig playwright2 exported2
          (fst (snd (create_auth_state pytestconfig playwright exported fs))) =
        (Inr AUTH_STATE_FILE, fs, [Print ''Using existing auth storage state.''])"
    by simp
next
  assume a: "opt_recreate_auth pytestconfig"
  obtain r fs' tr where c: "create_auth_state pytestconfig playwright exported fs = (r, fs', tr)"
    by (cases "create_auth_state pytestconfig playwright exported fs")
  let ?evs = "[NewContext None, NewPage, AddInitScript, Goto ''https://dmfluxury.com'', Sleep 150]"
  have full: "take (length ?evs) ?evs = ?evs" by simp
  from a create_auth_state_bootstrap [OF _ c] full obtain k where
    k: "tr = [Print ''Creating new auth storage state...'',
              Launch (browser_name_of (opt_browser pytestconfig))] @ take k ?evs \<or>
        tr = [Print ''Creating new auth storage state...'',
              Launch (browser_name_of (opt_browser pytestconfig))] @ take k ?evs @
             [WriteStorageState AUTH_STATE_FILE] \<or>
        tr = [Print ''Creating new auth storage state...'',
              Launch (browser_name_of (opt_browser pytestconfig))] @ take k ?evs @
             [WriteStorageState AUTH_STATE_FILE, CloseContext]"
    by (metis append_Cons append_Nil)
  have f1: "filter is_launch (take k ?evs) = []"
    by (rule filter_take_none) simp
  have f2: "filter (\<lambda>ev. ev = Print ''Creating new auth storage state...'') (take k ?evs) = []"
    by (rule filter_take_none) simp
  from k f1 have "length (filter is_launch tr) = 1" by auto
  moreover from k f2 have "length (filter (\<lambda>ev. ev = Print ''Creating new auth storage state...'') tr) = 1"
    by auto
  ultimately show "length (filter is_launch (snd (snd (create_auth_state pytestconfig playwright exported fs)))) = 1"
    and "length (filter (\<lambda>ev. ev = Print ''Creating new auth storage state...'')
                (snd (snd (create_auth_state pytestconfig playwright exported fs)))) = 1"
    using c by simp_all
qed

lemma calls_append:
  "calls respond (xs @ ys) tr =
     (case calls respond xs tr of
        (Inl e, t) \<Rightarrow> (Inl e, t)
      | (Inr u, t) \<Rightarrow> calls respond ys t)"
proof (induction xs arbitrary: tr)
  case Nil
  then show ?case by simp
next
  case (Cons x xs)
  obtain r1 t1 where c: "call respond x tr = (r1, t1)" by (cases "call respond x tr")
  show ?case
  proof (cases r1)
    case (Inl e)
    with c show ?thesis by simp
  next
    case (Inr u)
    with c Cons.IH [of t1] show ?thesis by simp
  qed
qed

lemma calls_all_return:
  "(\<forall>j<length evs. respond (tr @ take j evs) (evs ! j) = None) \<Longrightarrow>
   calls respond evs tr = (Inr (), tr @ evs)"
proof (induction evs arbitrary: tr)
  case Nil
  then show ?case by simp
next
  case (Cons ev evs)
  from Cons.prems have "respond (tr @ take 0 (ev # evs)) ((ev # evs) ! 0) = None" by blast
  then have r0: "respond tr ev = None" by simp
  have "\<forall>j<length evs. respond ((tr @ [ev]) @ take j evs) (evs ! j) = None"
  proof (intro allI impI)
    fix j assume "j < length evs"
    then have "Suc j < length (ev # evs)" by simp
    with Cons.prems have "respond (tr @ take (Suc j) (ev # evs)) ((ev # evs) ! Suc j) = None"
      by blast
    then show "respond ((tr @ [ev]) @ take j evs) (evs ! j) = None" by simp
  qed
  from Cons.IH [OF this] r0 show ?case by (simp add: call_def)
qed

lemma calls_first_raise:
  "k < length evs \<Longrightarrow> respond (tr @ take k evs) (evs ! k) = Some e \<Longrightarrow>
   (\<forall>j<k. respond (tr @ take j evs) (evs ! j) = None) \<Longrightarrow>
   calls respond evs tr = (Inl e, tr @ take (Suc k) evs)"
proof (induction evs arbitrary: tr k)
  case Nil
  then show ?case by simp
next
  case (Cons ev evs)
  show ?case
  proof (cases k)
    case 0
    with Cons.prems(2) have "respond tr ev = Some e" by simp
    with 0 show ?thesis by (simp add: call_def)
  next
    case (Suc k')
    with Cons.prems(3) have "respond (tr @ take 0 (ev # evs)) ((ev # evs) ! 0) = None" by blast
    then have r0: "respond tr ev = None" by simp
    from Suc Cons.prems(1) have k': "k' < length evs" by simp
    from Suc Cons.prems(2) have e: "respond ((tr @ [ev]) @ take k' evs) (evs ! k') = Some e"
      by simp
    have "\<forall>j<k'. respond ((tr @ [ev]) @ take j evs) (evs ! j) = None"
    proof (intro allI impI)
      fix j assume "j < k'"
      then have "Suc j < k" using Suc by simp
      with Cons.prems(3) have "respond (tr @ take (Suc j) (ev # evs)) ((ev # evs) ! Suc j) = None"
        by blast
      then show "respond ((tr @ [ev]) @ take j evs) (evs ! j) = None" by simp
    qed
    from Cons.IH [OF k' e this] r0 Suc show ?thesis by (simp add: call_def)
  qed
qed

lemma create_auth_state_as_calls:
  assumes b: "fs = None \<or> opt_recreate_auth pytestconfig"
  shows "create_auth_state pytestconfig playwright exported fs =
     (case calls playwright (bootstrap_steps (browser_name_of (opt_browser pytestconfig)))
             [Print ''Creating new auth storage state...''] of
        (Inl e, tr) \<Rightarrow>
          (Inl e, (if length tr = 9 then (case exported of None \<Rightarrow> fs | Some c \<Rightarrow> Some c) else fs), tr)
      | (Inr u, tr) \<Rightarrow>
          (if (case exported of None \<Rightarrow> fs | Some c \<Rightarrow> Some c) = None
           then Inl RuntimeError else Inr AUTH_STATE_FILE,
           (case exported of None \<Rightarrow> fs | Some c \<Rightarrow> Some c), tr))"
proof -
  let ?six = "[Launch (browser_name_of (opt_browser pytestconfig)), NewContext None, NewPage,
               AddInitScript, Goto ''https://dmfluxury.com'', Sleep 150]"
  let ?P = "Print ''Creating new auth storage state...''"
  let ?W = "WriteStorageState AUTH_STATE_FILE"
  have split: "bootstrap_steps (browser_name_of (opt_browser pytestconfig)) = ?six @ [?W, CloseContext]"
    by (simp add: bootstrap_steps_def)
  obtain r0 t0 where c0: "calls playwright ?six [?P] = (r0, t0)"
    by (cases "calls playwright ?six [?P]")
  from calls_trace [OF c0] obtain k where k: "t0 = [?P] @ take k ?six" by blast
  then have len: "length t0 \<le> 7" by simp
  have all: "calls playwright (bootstrap_steps (browser_name_of (opt_browser pytestconfig))) [?P] =
     (case (r0, t0) of (Inl e, t) \<Rightarrow> (Inl e, t)
      | (Inr u, t) \<Rightarrow> calls playwright [?W, CloseContext] t)"
    unfolding split calls_append c0 ..
  have cr: "create_auth_state pytestconfig playwright exported fs =
     (case (r0, t0) of
        (Inl e, tr) \<Rightarrow> (Inl e, fs, tr)
      | (Inr u, tr) \<Rightarrow>
             (case call playwright ?W tr of
                (Inl e, tr') \<Rightarrow> (Inl e, fs, tr')
              | (Inr u', tr') \<Rightarrow>
                  (let fs' = (case exported of None \<Rightarrow> fs | Some c \<Rightarrow> Some c) in
                   case call playwright CloseContext tr' of
                     (Inl e, tr'') \<Rightarrow> (Inl e, fs', tr'')
                   | (Inr u'', tr'') \<Rightarrow>
                       if fs' = None then (Inl RuntimeError, fs', tr'')
                       else (Inr AUTH_STATE_FILE, fs', tr''))))"
    using b c0 by (auto simp: create_auth_state_def Let_def simp del: calls.simps)
  show ?thesis
  proof (cases r0)
    case (Inl e)
    with all cr len show ?thesis by simp
  next
    case (Inr u)
    with c0 have t0: "t0 = [?P] @ ?six" using calls_ok_trace by blast
    obtain r1 t1 where c1: "call playwright ?W t0 = (r1, t1)" by (cases "call playwright ?W t0")
    then have t1: "t1 = t0 @ [?W]" by (rule call_trace)
    show ?thesis
    proof (cases r1)
      case (Inl e)
      with all cr Inr c1 t1 t0 show ?thesis by simp
    next
      case r1: (Inr u1)
      obtain r2 t2 where c2: "call playwright CloseContext t1 = (r2, t2)"
        by (cases "call playwright CloseContext t1")
      then have t2: "t2 = t1 @ [CloseContext]" by (rule call_trace)
      show ?thesis
      proof (cases r2)
        case (Inl e)
        with all cr Inr c1 r1 c2 t2 t1 t0 show ?thesis by (simp add: Let_def)
      next
        case r2: (Inr u2)
        with all cr Inr c1 r1 c2 t2 t1 t0 show ?thesis by (simp add: Let_def)
      qed
    qed
  qed
qed

lemma create_auth_state_runs_bootstrap:
  assumes b: "fs = None \<or> opt_recreate_auth pytestconfig"
  shows "((\<forall>j<8. playwright
              (Print ''Creating new auth storage state...'' #
               take j (bootstrap_steps (browser_name_of (opt_browser pytestconfig))))
              (bootstrap_steps (browser_name_of (opt_browser pytestconfig)) ! j) = None) \<longrightarrow>
          create_auth_state pytestconfig playwright exported fs =
            (if (case exported of None \<Rightarrow> fs | Some c \<Rightarrow> Some c) = None
             then Inl RuntimeError else Inr AUTH_STATE_FILE,
             (case exported of None \<Rightarrow> fs | Some c \<Rightarrow> Some c),
             Print ''Creating new auth storage state...'' #
             bootstrap_steps (browser_name_of (opt_browser pytestconfig)))) \<and>
         (k < 8 \<and>
          playwright
              (Print ''Creating new auth storage state...'' #
               take k (bootstrap_steps (browser_name_of (opt_browser pytestconfig))))
              (bootstrap_steps (browser_name_of (opt_browser pytestconfig)) ! k) = Some e \<and>
          (\<forall>j<k. playwright
              (Print ''Creating new auth storage state...'' #
               take j (bootstrap_steps (browser_name_of (opt_browser pytestconfig))))
              (bootstrap_steps (browser_name_of (opt_browser pytestconfig)) ! j) = None) \<longrightarrow>
          create_auth_state pytestconfig playwright exported fs =
            (Inl e,
             (if k = 7 then (case exported of None \<Rightarrow> fs | Some c \<Rightarrow> Some c) else fs),
             Print ''Creating new auth storage state...'' #
             take (Suc k) (bootstrap_steps (browser_name_of (opt_browser pytestconfig)))))"
proof (intro conjI impI)
  let ?S = "bootstrap_steps (browser_name_of (opt_browser pytestconfig))"
  let ?P = "Print ''Creating new auth storage state...''"
  have l8: "length ?S = 8" by (simp add: bootstrap_steps_def)
  {
    assume "\<forall>j<8. playwright (?P # take j ?S) (?S ! j) = None"
    then have "\<forall>j<length ?S. playwright ([?P] @ take j ?S) (?S ! j) = None"
      using l8 by simp
    from calls_all_return [OF this]
    show "create_auth_state pytestconfig playwright exported fs =
            (if (case exported of None \<Rightarrow> fs | Some c \<Rightarrow> Some c) = None
             then Inl RuntimeError else Inr AUTH_STATE_FILE,
             (case exported of None \<Rightarrow> fs | Some c \<Rightarrow> Some c), ?P # ?S)"
      by (simp add: create_auth_state_as_calls [OF b])
  }
  {
    assume a: "k < 8 \<and> playwright (?P # take k ?S) (?S ! k) = Some e \<and>
          (\<forall>j<k. playwright (?P # take j ?S) (?S ! j) = None)"
    then have k: "k < length ?S" and e: "playwright ([?P] @ take k ?S) (?S ! k) = Some e"
      and n: "\<forall>j<k. playwright ([?P] @ take j ?S) (?S ! j) = None"
      using l8 by simp_all
    have len: "length ([?P] @ take (Suc k) ?S) = Suc (Suc k)" using k by simp
    from calls_first_raise [OF k e n]
    have "create_auth_state pytestconfig playwright exported fs =
            (Inl e,
             (if length ([?P] @ take (Suc k) ?S) = 9
              then (case exported of None \<Rightarrow> fs | Some c \<Rightarrow> Some c) else fs),
             [?P] @ take (Suc k) ?S)"
      by (simp add: create_auth_state_as_calls [OF b] del: take_Suc_Cons length_append append.simps)
    moreover have "(length ([?P] @ take (Suc k) ?S) = 9) = (k = 7)" unfolding len by arith
    ultimately show "create_auth_state pytestconfig playwright exported fs =
            (Inl e,
             (if k = 7 then (case exported of None \<Rightarrow> fs | Some c \<Rightarrow> Some c) else fs),
             ?P # take (Suc k) ?S)"
      by (simp del: take_Suc_Cons length_append)
  }
qed

text \<open>
  Claim C3. When the auth file exists and \<open>--recreate-auth\<close> is not given,
  \<open>create_auth_state\<close> returns the path of the file, leaves the file as it
  is and makes no browser call; a second invocation, on the file system the
  first one left, does the same whatever the browser would answer. With
  \<open>--recreate-auth\<close> it runs one fresh bootstrap: it announces it once,
  launches the browser exactly once and makes the calls of
  \<open>bootstrap_steps\<close> in order; when all of them return, the file holds what
  \<open>storage_state\<close> exported and the path is returned (or
  \<open>RuntimeError\<close> is raised when there is still no file); when one of them
  raises, that is the last call made and its exception is the result.
\<close>

theorem create_auth_state_reuse_or_fresh_bootstrap:
  "(fs \<noteq> None \<and> \<not> opt_recreate_auth pytestconfig \<longrightarrow>
      create_auth_state pytestconfig playwright exported fs =
        (Inr AUTH_STATE_FILE, fs, [Print ''Using existing auth storage state.'']) \<and>
      create_auth_state pytestconfig playwright2 exported2
          (fst (snd (create_auth_state pytestconfig playwright exported fs))) =
        (Inr AUTH_STATE_FILE, fs, [Print ''Using existing auth storage state.''])) \<and>
   (opt_recreate_auth pytestconfig \<longrightarrow>
      length (filter is_launch (snd (snd (create_auth_state pytestconfig playwright exported fs)))) = 1 \<and>
      length (filter (\<lambda>ev. ev = Print ''Creating new auth storage state...'')
                (snd (snd (create_auth_state pytestconfig playwright exported fs)))) = 1) \<and>
   (opt_recreate_auth pytestconfig \<and>
    (\<forall>j<8. playwright (Print ''Creating new auth storage state...'' # take j (bootstrap_steps (browser_name_of (opt_browser pytestconfig)))) (bootstrap_steps (browser_name_of (opt_browser pytestconfig)) ! j) = None) \<longrightarrow>
      create_auth_state pytestconfig playwright exported fs =
        (if (case exported of None \<Rightarrow> fs | Some c \<Rightarrow> Some c) = None then Inl RuntimeError else Inr AUTH_STATE_FILE,
         (case exported of None \<Rightarrow> fs | Some c \<Rightarrow> Some c),
         Print ''Creating new auth storage state...'' # bootstrap_steps (browser_name_of (opt_browser pytestconfig)))) \<and>
   (opt_recreate_auth pytestconfig \<and> k < 8 \<and>
    playwright (Print ''Creating new auth storage state...'' # take k (bootstrap_steps (browser_name_of (opt_browser pytestconfig)))) (bootstrap_steps (browser_name_of (opt_browser pytestconfig)) ! k) = Some e \<and>
    (\<forall>j<k. playwright (Print ''Creating new auth storage state...'' # take j (bootstrap_steps (browser_name_of (opt_browser pytestconfig)))) (bootstrap_steps (browser_name_of (opt_browser pytestconfig)) ! j) = None) \<longrightarrow>
      create_auth_state pytestconfig playwright exported fs =
        (Inl e,
         (if k = 7 then (case exported of None \<Rightarrow> fs | Some c \<Rightarrow> Some c) else fs),
         Print ''Creating new auth storage state...'' # take (Suc k) (bootstrap_steps (browser_name_of (opt_browser pytestconfig)))))"
proof -
  have old: "(fs \<noteq> None \<and> \<not> opt_recreate_auth pytestconfig \<longrightarrow>
      create_auth_state pytestconfig playwright exported fs =
        (Inr AUTH_STATE_FILE, fs, [Print ''Using existing auth storage state.'']) \<and>
      create_auth_state pytestconfig playwright2 exported2
          (fst (snd (create_auth_state pytestconfig playwright exported fs))) =
        (Inr AUTH_STATE_FILE, fs, [Print ''Using existing auth storage state.''])) \<and>
   (opt_recreate_auth pytestconfig \<longrightarrow>
      length (filter is_launch (snd (snd (create_auth_state pytestconfig playwright exported fs)))) = 1 \<and>
      length (filter (\<lambda>ev. ev = Print ''Creating new auth storage state...'')
                (snd (snd (create_auth_state pytestconfig playwright exported fs)))) = 1)"
    by (rule create_auth_state_one_launch)
  have new: "opt_recreate_auth pytestconfig \<Longrightarrow>
     ((\<forall>j<8. playwright (Print ''Creating new auth storage state...'' # take j (bootstrap_steps (browser_name_of (opt_browser pytestconfig)))) (bootstrap_steps (browser_name_of (opt_browser pytestconfig)) ! j) = None) \<longrightarrow>
        create_auth_state pytestconfig playwright exported fs =
          (if (case exported of None \<Rightarrow> fs | Some c \<Rightarrow> Some c) = None then Inl RuntimeError else Inr AUTH_STATE_FILE,
           (case exported of None \<Rightarrow> fs | Some c \<Rightarrow> Some c),
           Print ''Creating new auth storage state...'' # bootstrap_steps (browser_name_of (opt_browser pytestconfig)))) \<and>
     (k < 8 \<and>
      playwright (Print ''Creating new auth storage state...'' # take k (bootstrap_steps (browser_name_of (opt_browser pytestconfig)))) (bootstrap_steps (browser_name_of (opt_browser pytestconfig)) ! k) = Some e \<and>
      (\<forall>j<k. playwright (Print ''Creating new auth storage state...'' # take j (bootstrap_steps (browser_name_of (opt_browser pytestconfig)))) (bootstrap_steps (browser_name_of (opt_browser pytestconfig)) ! j) = None) \<longrightarrow>
        create_auth_state pytestconfig playwright exported fs =
          (Inl e,
           (if k = 7 then (case exported of None \<Rightarrow> fs | Some c \<Rightarrow> Some c) else fs),
           Print ''Creating new auth storage state...'' # take (Suc k) (bootstrap_steps (browser_name_of (opt_browser pytestconfig)))))"
    by (rule create_auth_state_runs_bootstrap) simp
  show ?thesis
  proof (intro conjI)
    from old show "fs \<noteq> None \<and> \<not> opt_recreate_auth pytestconfig \<longrightarrow>
      create_auth_state pytestconfig playwright exported fs =
        (Inr AUTH_STATE_FILE, fs, [Print ''Using existing auth storage state.'']) \<and>
      create_auth_state pytestconfig playwright2 exported2
          (fst (snd (create_auth_state pytestconfig playwright exported fs))) =
        (Inr AUTH_STATE_FILE, fs, [Print ''Using existing auth storage state.''])"
      by (rule conjunct1)
  next
    from old show "opt_recreate_auth pytestconfig \<longrightarrow>
      length (filter is_launch (snd (snd (create_auth_state pytestconfig playwright exported fs)))) = 1 \<and>
      length (filter (\<lambda>ev. ev = Print ''Creating new auth storage state...'')
                (snd (snd (create_auth_state pytestconfig playwright exported fs)))) = 1"
      by (rule conjunct2)
  next
    show "opt_recreate_auth pytestconfig \<and>
      (\<forall>j<8. playwright (Print ''Creating new auth storage state...'' #
                    take j (bootstrap_steps (browser_name_of (opt_browser pytestconfig))))
                 (bootstrap_steps (browser_name_of (opt_browser pytestconfig)) ! j) = None) \<longrightarrow>
      create_auth_state pytestconfig playwright exported fs =
        (if (case exported of None \<Rightarrow> fs | Some c \<Rightarrow> Some c) = None
         then Inl RuntimeError else Inr AUTH_STATE_FILE,
         (case exported of None \<Rightarrow> fs | Some c \<Rightarrow> Some c),
         Print ''Creating new auth storage state...'' #
         bootstrap_steps (browser_name_of (opt_browser pytestconfig)))"
    proof (intro impI)
      assume a: "opt_recreate_auth pytestconfig \<and>
        (\<forall>j<8. playwright (Print ''Creating new auth storage state...'' #
                    take j (bootstrap_steps (browser_name_of (opt_browser pytestconfig))))
                 (bootstrap_steps (browser_name_of (opt_browser pytestconfig)) ! j) = None)"
      from new [OF a [THEN conjunct1], THEN conjunct1, THEN mp, OF a [THEN conjunct2]]
      show "create_auth_state pytestconfig playwright exported fs =
        (if (case exported of None \<Rightarrow> fs | Some c \<Rightarrow> Some c) = None
         then Inl RuntimeError else Inr AUTH_STATE_FILE,
         (case exported of None \<Rightarrow> fs | Some c \<Rightarrow> Some c),
         Print ''Creating new auth storage state...'' #
         bootstrap_steps (browser_name_of (opt_browser pytestconfig)))" .
    qed
  next
    show "opt_recreate_auth pytestconfig \<and> k < 8 \<and>
      playwright (Print ''Creating new auth storage state...'' #
                  take k (bootstrap_steps (browser_name_of (opt_browser pytestconfig))))
               (bootstrap_steps (browser_name_of (opt_browser pytestconfig)) ! k) = Some e \<and>
      (\<forall>j<k. playwright (Print ''Creating new auth storage state...'' #
                    take j (bootstrap_steps (browser_name_of (opt_browser pytestconfig))))
                 (bootstrap_steps (browser_name_of (opt_browser pytestconfig)) ! j) = None) \<longrightarrow>
      create_auth_state pytestconfig playwright exported fs =
        (Inl e,
         (if k = 7 then (case exported of None \<Rightarrow> fs | Some c \<Rightarrow> Some c) else fs),
         Print ''Creating new auth storage state...'' #
         take (Suc k) (bootstrap_steps (browser_name_of (opt_browser pytestconfig))))"
    proof (intro impI)
      assume a: "opt_recreate_auth pytestconfig \<and> k < 8 \<and>
        playwright (Print ''Creating new auth storage state...'' #
                  take k (bootstrap_steps (browser_name_of (opt_browser pytestconfig))))
               (bootstrap_steps (browser_name_of (opt_browser pytestconfig)) ! k) = Some e \<and>
        (\<forall>j<k. playwright (Print ''Creating new auth storage state...'' #
                    take j (bootstrap_steps (browser_name_of (opt_browser pytestconfig))))
                 (bootstrap_steps (browser_name_of (opt_browser pytestconfig)) ! j) = None)"
      from new [OF a [THEN conjunct1], THEN conjunct2, THEN mp, OF a [THEN conjunct2]]
      show "create_auth_state pytestconfig playwright exported fs =
        (Inl e,
         (if k = 7 then (case exported of None \<Rightarrow> fs | Some c \<Rightarrow> Some c) else fs),
         Print ''Creating new auth storage state...'' #
         take (Suc k) (bootstrap_steps (browser_name_of (opt_browser pytestconfig))))" .
    qed
  qed
qed

theorem create_auth_state_reuse_or_fresh_bootstrap_witness:
  "create_auth_state default_config all_ok None (Some (StorageState ''cookies'')) =
     (Inr AUTH_STATE_FILE, Some (StorageState ''cookies''),
      [Print ''Using existing auth storage state.'']) \<and>
   create_auth_state (default_config\<lparr>opt_recreate_auth := True\<rparr>) all_ok
      (Some (StorageState ''fresh cookies'')) (Some (StorageState ''cookies'')) =
     (Inr AUTH_STATE_FILE, Some (StorageState ''fresh cookies''),
      Print ''Creating new auth storage state...'' # bootstrap_steps Chromium) \<and>
   create_auth_state (default_config\<lparr>opt_recreate_auth := True\<rparr>) always_times_out
      (Some (StorageState ''fresh cookies'')) (Some (StorageState ''cookies'')) =
     (Inl TimeoutError, Some (StorageState ''cookies''),
      [Print ''Creating new auth storage state...'', Launch Chromium])"
proof -
  let ?cfg = "default_config\<lparr>opt_recreate_auth := True\<rparr>"
  have b: "browser_name_of (opt_browser ?cfg) = Chromium"
    by (simp add: default_config_def browser_name_of_def)
  have h1: "Some (StorageState ''cookies'') \<noteq> None \<and> \<not> opt_recreate_auth default_config"
    by (simp add: default_config_def)
  have h2: "opt_recreate_auth ?cfg \<and>
    (\<forall>j<8. all_ok (Print ''Creating new auth storage state...'' # take j (bootstrap_steps (browser_name_of (opt_browser ?cfg))))
       (bootstrap_steps (browser_name_of (opt_browser ?cfg)) ! j) = None)"
    by (simp add: all_ok_def)
  have h3: "opt_recreate_auth ?cfg \<and> (0::nat) < 8 \<and>
    always_times_out (Print ''Creating new auth storage state...'' # take 0 (bootstrap_steps (browser_name_of (opt_browser ?cfg))))
       (bootstrap_steps (browser_name_of (opt_browser ?cfg)) ! 0) = Some TimeoutError \<and>
    (\<forall>j<0. always_times_out (Print ''Creating new auth storage state...'' # take j (bootstrap_steps (browser_name_of (opt_browser ?cfg))))
       (bootstrap_steps (browser_name_of (opt_browser ?cfg)) ! j) = None)"
    by (simp add: always_times_out_def)
  from create_auth_state_reuse_or_fresh_bootstrap
         [where fs = "Some (StorageState ''cookies'')" and pytestconfig = default_config
            and playwright = all_ok and exported = None,
          THEN conjunct1, THEN mp, OF h1, THEN conjunct1]
  have c1: "create_auth_state default_config all_ok None (Some (StorageState ''cookies'')) =
     (Inr AUTH_STATE_FILE, Some (StorageState ''cookies''),
      [Print ''Using existing auth storage state.''])" .
  from create_auth_state_reuse_or_fresh_bootstrap
         [where pytestconfig = ?cfg and playwright = all_ok
            and exported = "Some (StorageState ''fresh cookies'')"
            and fs = "Some (StorageState ''cookies'')",
          THEN conjunct2, THEN conjunct2, THEN conjunct1, THEN mp, OF h2]
  have "create_auth_state ?cfg all_ok (Some (StorageState ''fresh cookies''))
          (Some (StorageState ''cookies'')) =
     (if (case Some (StorageState ''fresh cookies'') of
            None \<Rightarrow> Some (StorageState ''cookies'') | Some c \<Rightarrow> Some c) = None
      then Inl RuntimeError else Inr AUTH_STATE_FILE,
      (case Some (StorageState ''fresh cookies'') of
            None \<Rightarrow> Some (StorageState ''cookies'') | Some c \<Rightarrow> Some c),
      Print ''Creating new auth storage state...'' # bootstrap_steps (browser_name_of (opt_browser ?cfg)))" .
  then have c2: "create_auth_state ?cfg all_ok (Some (StorageState ''fresh cookies''))
          (Some (StorageState ''cookies'')) =
     (Inr AUTH_STATE_FILE, Some (StorageState ''fresh cookies''),
      Print ''Creating new auth storage state...'' # bootstrap_steps Chromium)" by (simp add: default_config_def browser_name_of_def)
  from create_auth_state_reuse_or_fresh_bootstrap
         [where pytestconfig = ?cfg and playwright = always_times_out
            and exported = "Some (StorageState ''fresh cookies'')"
            and fs = "Some (StorageState ''cookies'')" and k = 0 and e = TimeoutError,
          THEN conjunct2, THEN conjunct2, THEN conjunct2, THEN mp, OF h3]
  have "create_auth_state ?cfg always_times_out (Some (StorageState ''fresh cookies''))
          (Some (StorageState ''cookies'')) =
     (Inl TimeoutError,
      (if (0::nat) = 7 then (case Some (StorageState ''fresh cookies'') of
            None \<Rightarrow> Some (StorageState ''cookies'') | Some c \<Rightarrow> Some c)
       else Some (StorageState ''cookies'')),
      Print ''Creating new auth storage state...'' # take (Suc 0) (bootstrap_steps (browser_name_of (opt_browser ?cfg))))" .
  then have c3: "create_auth_state ?cfg always_times_out (Some (StorageState ''fresh cookies''))
          (Some (StorageState ''cookies'')) =
     (Inl TimeoutError, Some (StorageState ''cookies''),
      [Print ''Creating new auth storage state...'', Launch Chromium])" by (simp add: default_config_def browser_name_of_def bootstrap_steps_def)
  show ?thesis by (intro conjI) (rule c1 c2 c3)+
qed





text \<open>
  Claim C7, as stated, fails: with a corrupt auth file on disk the request for
  an authenticated page ends in the exception of \<open>new_context\<close> and no
  bootstrap runs, whereas with the file absent the bootstrap runs: a file
  that cannot be decoded is not treated as absent.
\<close>

theorem corrupt_state_not_treated_as_absent_counterexample:
  "request_auth_page default_config all_ok (Some (StorageState ''cookies''))
     (Some (Corrupt ''{cookies: ['')) =
     (Inl PlaywrightError, Some (Corrupt ''{cookies: [''),
      [Print ''Using existing auth storage state.'', NewContext (Some AUTH_STATE_FILE)]) \<and>
   request_auth_page default_config all_ok (Some (StorageState ''cookies'')) None =
     (Inr (), Some (StorageState ''cookies''),
      [Print ''Creating new auth storage state...'', Launch Chromium,
       NewContext None, NewPage, AddInitScript, Goto ''https://dmfluxury.com'',
       Sleep 150, WriteStorageState AUTH_STATE_FILE, CloseContext,
       NewContext (Some AUTH_STATE_FILE), NewPage,
       Goto ''https://dmfluxury.com/pages/configurators'',
       WaitForSelector DASHBOARD_HEADER ''visible'' 60000])"
  by (simp add: request_auth_page_def auth_page_def create_auth_state_def default_config_def
      all_ok_def call_def browser_name_of_def)

text \<open>
  Claim C7, amended. Without \<open>--recreate-auth\<close>, \<open>create_auth_state\<close>
  only tests that the auth file exists: it returns the path of any existing
  file, whatever its contents, unread and with no bootstrap; a corrupt file
  makes \<open>new_context\<close> in \<open>auth_page\<close> raise, so no context is built from
  it, and nothing falls back to a fresh bootstrap.
\<close>

theorem existing_file_used_unchecked:
  assumes "\<not> opt_recreate_auth pytestconfig"
  shows "create_auth_state pytestconfig playwright exported (Some c) =
           (Inr AUTH_STATE_FILE, Some c, [Print ''Using existing auth storage state.'']) \<and>
         request_auth_page pytestconfig playwright exported (Some (Corrupt x)) =
           (Inl PlaywrightError, Some (Corrupt x),
            [Print ''Using existing auth storage state.'', NewContext (Some AUTH_STATE_FILE)])"
  using assms by (simp add: request_auth_page_def auth_page_def create_auth_state_def)

theorem existing_file_used_unchecked_witness:
  "create_auth_state default_config all_ok None (Some (Corrupt ''{cookies: ['')) =
     (Inr AUTH_STATE_FILE, Some (Corrupt ''{cookies: [''),
      [Print ''Using existing auth storage state.''])"
proof -
  have "\<not> opt_recreate_auth default_config" by (simp add: default_config_def)
  from existing_file_used_unchecked [OF this] show ?thesis by blast
qed

section \<open>Properties of the mailbox client\<close>

text \<open>
  Claim C5, as stated, fails: with the client secrets file missing, with it
  invalid, and with working credentials and no matching message,
  \<open>get_latest_email\<close> returns the same value \<open>None\<close>.
\<close>

theorem credential_failure_same_as_not_found_counterexample:
  "get_gmail_service missing_credentials = Inl FileNotFoundError \<and>
   get_gmail_service invalid_credentials = Inl ValueError \<and>
   get_gmail_service empty_mailbox = Inr () \<and>
   get_latest_email missing_credentials Inr ascii_digit ascii_word ''subject:code'' = Inr None \<and>
   get_latest_email invalid_credentials Inr ascii_digit ascii_word ''subject:code'' = Inr None \<and>
   get_latest_email empty_mailbox Inr ascii_digit ascii_word ''subject:code'' = Inr None"
  by (simp add: get_latest_email_def get_gmail_service_def missing_credentials_def
      invalid_credentials_def empty_mailbox_def then_do_def raise_if_def)

text \<open>
  Claim C5, amended. Whenever \<open>get_gmail_service\<close> raises an
  \<open>Exception\<close>, as it does for a missing client secrets file
  (\<open>FileNotFoundError\<close>) and for an invalid credential file
  (\<open>ValueError\<close>), \<open>get_latest_email\<close> returns \<open>None\<close>, the value it also
  returns when no message matches the query and when the latest message holds
  no code; it returns \<open>None\<close> in these three situations only. Every other
  failure reaches the caller as an exception: a \<open>BaseException\<close> raised
  during authentication, a failing list or get call, a message without
  payload or headers (\<open>KeyError\<close>), and a failure to decode the body.
\<close>

theorem get_latest_email_outcomes:
  "(get_gmail_service mb = Inl e \<and> is_Exception e \<longrightarrow>
      get_latest_email mb dec dg wd query = Inr None) \<and>
   (token_file mb = NoToken \<and> client_secrets_file mb = Missing \<longrightarrow>
      get_gmail_service mb = Inl FileNotFoundError) \<and>
   (token_file mb = NoToken \<and> client_secrets_file mb = Invalid \<longrightarrow>
      get_gmail_service mb = Inl ValueError) \<and>
   (token_file mb = BadToken \<longrightarrow> get_gmail_service mb = Inl ValueError) \<and>
   (get_gmail_service mb = Inr () \<and> messages_list mb query = Inr [] \<longrightarrow>
      get_latest_email mb dec dg wd query = Inr None) \<and>
   (get_gmail_service mb = Inr () \<and> messages_list mb query = Inl e \<longrightarrow>
      get_latest_email mb dec dg wd query = Inl e) \<and>
   (get_gmail_service mb = Inr () \<and> messages_list mb query = Inr (msg_id # others) \<and>
    messages_get mb msg_id = Inl e \<longrightarrow>
      get_latest_email mb dec dg wd query = Inl e) \<and>
   (get_gmail_service mb = Inl e \<and> \<not> is_Exception e \<longrightarrow>
      get_latest_email mb dec dg wd query = Inl e) \<and>
   (get_gmail_service mb = Inr () \<and> messages_list mb query = Inr (msg_id # others) \<and>
    messages_get mb msg_id = Inr msg \<and>
    (payload msg = None \<or> (\<exists>p. payload msg = Some p \<and> headers p = None)) \<longrightarrow>
      get_latest_email mb dec dg wd query = Inl KeyError) \<and>
   (get_gmail_service mb = Inr () \<and> messages_list mb query = Inr (msg_id # others) \<and>
    messages_get mb msg_id = Inr msg \<and> payload msg = Some p \<and> headers p = Some hs \<longrightarrow>
      get_latest_email mb dec dg wd query = extract_otp dec dg wd msg \<and>
      (extract_text_from_message dec msg = Inl e \<longrightarrow>
         get_latest_email mb dec dg wd query = Inl e) \<and>
      (extract_text_from_message dec msg = Inr text \<and> re_search_otp dg wd text = None \<longrightarrow>
         get_latest_email mb dec dg wd query = Inr None) \<and>
      (extract_text_from_message dec msg = Inr text \<and> re_search_otp dg wd text = Some (i, code) \<longrightarrow>
         get_latest_email mb dec dg wd query = Inr (Some code))) \<and>
   ((get_latest_email mb dec dg wd query = Inr None) =
      ((\<exists>e'. get_gmail_service mb = Inl e' \<and> is_Exception e') \<or>
       (get_gmail_service mb = Inr () \<and> messages_list mb query = Inr []) \<or>
       (get_gmail_service mb = Inr () \<and>
        (\<exists>msg_id' others' msg' p' hs' text'.
           messages_list mb query = Inr (msg_id' # others') \<and>
           messages_get mb msg_id' = Inr msg' \<and> payload msg' = Some p' \<and>
           headers p' = Some hs' \<and> extract_text_from_message dec msg' = Inr text' \<and>
           re_search_otp dg wd text' = None))))"
proof -
  have fnf: "\<And>x. \<not> is_Exception x \<Longrightarrow> x \<noteq> FileNotFoundError" by auto
  have a: "(get_gmail_service mb = Inl e \<and> is_Exception e \<longrightarrow>
      get_latest_email mb dec dg wd query = Inr None) \<and>
   (token_file mb = NoToken \<and> client_secrets_file mb = Missing \<longrightarrow>
      get_gmail_service mb = Inl FileNotFoundError) \<and>
   (token_file mb = NoToken \<and> client_secrets_file mb = Invalid \<longrightarrow>
      get_gmail_service mb = Inl ValueError) \<and>
   (token_file mb = BadToken \<longrightarrow> get_gmail_service mb = Inl ValueError) \<and>
   (get_gmail_service mb = Inr () \<and> messages_list mb query = Inr [] \<longrightarrow>
      get_latest_email mb dec dg wd query = Inr None) \<and>
   (get_gmail_service mb = Inr () \<and> messages_list mb query = Inl e \<longrightarrow>
      get_latest_email mb dec dg wd query = Inl e) \<and>
   (get_gmail_service mb = Inr () \<and> messages_list mb query = Inr (msg_id # others) \<and>
    messages_get mb msg_id = Inl e \<longrightarrow>
      get_latest_email mb dec dg wd query = Inl e)"
    by (simp add: get_latest_email_def get_gmail_service_def then_do_def)
  have b: "get_gmail_service mb = Inl e \<and> \<not> is_Exception e \<longrightarrow>
      get_latest_email mb dec dg wd query = Inl e"
    using fnf [of e] by (auto simp: get_latest_email_def)
  have c: "get_gmail_service mb = Inr () \<and> messages_list mb query = Inr (msg_id # others) \<and>
    messages_get mb msg_id = Inr msg \<and>
    (payload msg = None \<or> (\<exists>p. payload msg = Some p \<and> headers p = None)) \<longrightarrow>
      get_latest_email mb dec dg wd query = Inl KeyError"
    by (auto simp: get_latest_email_def)
  have d: "get_gmail_service mb = Inr () \<and> messages_list mb query = Inr (msg_id # others) \<and>
    messages_get mb msg_id = Inr msg \<and> payload msg = Some p \<and> headers p = Some hs \<longrightarrow>
      get_latest_email mb dec dg wd query = extract_otp dec dg wd msg \<and>
      (extract_text_from_message dec msg = Inl e \<longrightarrow>
         get_latest_email mb dec dg wd query = Inl e) \<and>
      (extract_text_from_message dec msg = Inr text \<and> re_search_otp dg wd text = None \<longrightarrow>
         get_latest_email mb dec dg wd query = Inr None) \<and>
      (extract_text_from_message dec msg = Inr text \<and> re_search_otp dg wd text = Some (i, code) \<longrightarrow>
         get_latest_email mb dec dg wd query = Inr (Some code))"
    by (auto simp: get_latest_email_def extract_otp_def)
  have n: "(get_latest_email mb dec dg wd query = Inr None) =
      ((\<exists>e'. get_gmail_service mb = Inl e' \<and> is_Exception e') \<or>
       (get_gmail_service mb = Inr () \<and> messages_list mb query = Inr []) \<or>
       (get_gmail_service mb = Inr () \<and>
        (\<exists>msg_id' others' msg' p' hs' text'.
           messages_list mb query = Inr (msg_id' # others') \<and>
           messages_get mb msg_id' = Inr msg' \<and> payload msg' = Some p' \<and>
           headers p' = Some hs' \<and> extract_text_from_message dec msg' = Inr text' \<and>
           re_search_otp dg wd text' = None)))"
  proof (cases "get_gmail_service mb")
    case (Inl x)
    then show ?thesis using fnf [of x] by (auto simp: get_latest_email_def)
  next
    case (Inr u)
    show ?thesis
    proof (cases "messages_list mb query")
      case (Inl x)
      with Inr show ?thesis by (simp add: get_latest_email_def)
    next
      case ml: (Inr ms)
      show ?thesis
      proof (cases ms)
        case Nil
        with Inr ml show ?thesis by (simp add: get_latest_email_def)
      next
        case (Cons m ms')
        show ?thesis
        proof (cases "messages_get mb m")
          case (Inl x)
          with Inr ml Cons show ?thesis by (simp add: get_latest_email_def)
        next
          case mg: (Inr ms0)
          show ?thesis
          proof (cases "payload ms0")
            case None
            with Inr ml Cons mg show ?thesis by (simp add: get_latest_email_def)
          next
            case (Some pp)
            show ?thesis
            proof (cases "headers pp")
              case None
              with Inr ml Cons mg Some show ?thesis by (simp add: get_latest_email_def)
            next
              case hh: (Some hs0)
              with Inr ml Cons mg Some show ?thesis
                by (cases "extract_text_from_message dec ms0")
                   (auto simp: get_latest_email_def extract_otp_def split: option.splits)
            qed
          qed
        qed
      qed
    qed
  qed
  from a b c d n show ?thesis by (elim conjE, intro conjI) assumption+
qed

theorem get_latest_email_outcomes_witness:
  "get_latest_email invalid_credentials Inr ascii_digit ascii_word ''subject:code'' = Inr None \<and>
   get_latest_email (empty_mailbox\<lparr>messages_list := (\<lambda>q. Inl HttpError)\<rparr>)
      Inr ascii_digit ascii_word ''subject:code'' = Inl HttpError"
proof -
  have a: "get_gmail_service invalid_credentials = Inl ValueError \<and> is_Exception ValueError"
    by (simp add: get_gmail_service_def missing_credentials_def
      invalid_credentials_def then_do_def raise_if_def)
  have b: "get_gmail_service (empty_mailbox\<lparr>messages_list := (\<lambda>q. Inl HttpError)\<rparr>) = Inr () \<and>
           messages_list (empty_mailbox\<lparr>messages_list := (\<lambda>q. Inl HttpError)\<rparr>) ''subject:code''
             = Inl HttpError"
    by (simp add: get_gmail_service_def missing_credentials_def
      empty_mailbox_def then_do_def raise_if_def)
  from get_latest_email_outcomes [of invalid_credentials ValueError Inr ascii_digit ascii_word "''subject:code''"] a
  have "get_latest_email invalid_credentials Inr ascii_digit ascii_word ''subject:code'' = Inr None"
    by blast
  moreover
  from get_latest_email_outcomes [of "empty_mailbox\<lparr>messages_list := (\<lambda>q. Inl HttpError)\<rparr>" HttpError
         Inr ascii_digit ascii_word "''subject:code''"] b
  have "get_latest_email (empty_mailbox\<lparr>messages_list := (\<lambda>q. Inl HttpError)\<rparr>)
      Inr ascii_digit ascii_word ''subject:code'' = Inl HttpError"
    by blast
  ultimately show ?thesis by blast
qed

section \<open>Properties of the page objects\<close>

lemma length_filter_take_le: "length (filter P (take k xs)) \<le> length (filter P xs)"
proof -
  have "length (filter P xs) = length (filter P (take k xs)) + length (filter P (drop k xs))"
    by (metis append_take_drop_id filter_append length_append)
  then show ?thesis by simp
qed

lemma Hitclick_trace:
  assumes "Hitclick self selector None False tr = (r, tr')"
  shows "\<exists>new. tr' = tr @ new \<and> list_all (click_event selector (default_timeout self) d) new \<and>
           length (filter (\<lambda>ev. ev = LocatorWaitFor selector ''visible'' (default_timeout self)) new) \<le> 1"
proof -
  let ?evs = "[LocatorWaitFor selector ''visible'' (default_timeout self),
               LocatorClick selector (default_timeout self) False]"
  from assms have "calls (page self) ?evs tr = (r, tr')"
    by (simp add: Hitclick_def Let_def del: calls.simps)
  from calls_trace [OF this] obtain k where k: "tr' = tr @ take k ?evs" by blast
  have "\<forall>ev \<in> set ?evs. click_event selector (default_timeout self) d ev" by simp
  then have "list_all (click_event selector (default_timeout self) d) (take k ?evs)"
    unfolding list_all_iff using set_take_subset [of k ?evs] by blast
  moreover have "length (filter (\<lambda>ev. ev = LocatorWaitFor selector ''visible'' (default_timeout self)) (take k ?evs)) \<le> 1"
  proof -
    have "length (filter (\<lambda>ev. ev = LocatorWaitFor selector ''visible'' (default_timeout self)) ?evs) = 1"
      by simp
    with length_filter_take_le
           [of "\<lambda>ev. ev = LocatorWaitFor selector ''visible'' (default_timeout self)" k ?evs]
    show ?thesis by (simp only:)
  qed
  ultimately show ?thesis using k by blast
qed

lemma safe_click_loop_trace:
  "safe_click_loop self selector d n last_exc tr = (r, tr') \<Longrightarrow>
   \<exists>new. tr' = tr @ new \<and> list_all (click_event selector (default_timeout self) d) new \<and>
     length (filter (\<lambda>ev. ev = LocatorWaitFor selector ''visible'' (default_timeout self)) new) \<le> n"
proof (induction n arbitrary: last_exc tr)
  case 0
  then have "tr' = tr" by (auto split: option.splits)
  then show ?case by simp
next
  case (Suc n)
  let ?W = "\<lambda>ev. ev = LocatorWaitFor selector ''visible'' (default_timeout self)"
  obtain r1 tr1 where h: "Hitclick self selector None False tr = (r1, tr1)"
    by (cases "Hitclick self selector None False tr")
  from Hitclick_trace [OF h, of d] obtain new1 where n1: "tr1 = tr @ new1"
    "list_all (click_event selector (default_timeout self) d) new1"
    "length (filter ?W new1) \<le> 1" by blast
  show ?case
  proof (cases "tr' = tr1")
    case True
    with n1 have "tr' = tr @ new1 \<and> list_all (click_event selector (default_timeout self) d) new1 \<and>
       length (filter ?W new1) \<le> Suc n" by simp
    then show ?thesis by blast
  next
    case False
    with Suc.prems h obtain e where
      l: "safe_click_loop self selector d n (Some e) (tr1 @ [Sleep d]) = (r, tr')"
      by (auto split: sum.splits if_splits)
    from Suc.IH [OF l] obtain new2 where n2: "tr' = (tr1 @ [Sleep d]) @ new2"
      "list_all (click_event selector (default_timeout self) d) new2"
      "length (filter ?W new2) \<le> n" by blast
    from n1 n2 have "tr' = tr @ (new1 @ [Sleep d] @ new2) \<and>
       list_all (click_event selector (default_timeout self) d) (new1 @ [Sleep d] @ new2) \<and>
       length (filter ?W (new1 @ [Sleep d] @ new2)) \<le> Suc n" by simp
    then show ?thesis by blast
  qed
qed

lemma safe_click_loop_raise:
  "safe_click_loop self selector d n last_exc tr = (Inl e, tr') \<Longrightarrow>
   0 < n \<or> last_exc \<noteq> None \<Longrightarrow> 0 \<le> d \<Longrightarrow>
   last_exc = Some e \<and> tr' = tr \<or>
   (\<exists>tr0 tr1. Hitclick self selector None False tr0 = (Inl e, tr1) \<and>
       (tr' = tr1 \<or> tr' = tr1 @ [Sleep d]))"
proof (induction n arbitrary: last_exc tr)
  case 0
  then show ?case by (auto split: option.splits)
next
  case (Suc n)
  obtain r1 tr1 where h: "Hitclick self selector None False tr = (r1, tr1)"
    by (cases "Hitclick self selector None False tr")
  from Suc.prems(1) h obtain e1 where r1: "r1 = Inl e1" by (cases r1) auto
  show ?case
  proof (cases "is_Exception e1")
    case False
    with Suc.prems(1) h r1 have "e = e1" "tr' = tr1" by simp_all
    with h r1 show ?thesis by blast
  next
    case True
    with Suc.prems h r1
    have l: "safe_click_loop self selector d n (Some e1) (tr1 @ [Sleep d]) = (Inl e, tr')"
      by simp
    from Suc.IH [OF l _ Suc.prems(3)]
    have "Some e1 = Some e \<and> tr' = tr1 @ [Sleep d] \<or>
      (\<exists>tr0 tr1. Hitclick self selector None False tr0 = (Inl e, tr1) \<and>
       (tr' = tr1 \<or> tr' = tr1 @ [Sleep d]))" by simp
    with h r1 show ?thesis by blast
  qed
qed

lemma safe_click_loop_return:
  "safe_click_loop self selector d n last_exc tr = (Inr u, tr') \<Longrightarrow>
   \<exists>tr0. Hitclick self selector None False tr0 = (Inr u, tr')"
proof (induction n arbitrary: last_exc tr)
  case 0
  then show ?case by (auto split: option.splits)
next
  case (Suc n)
  obtain r1 tr1 where h: "Hitclick self selector None False tr = (r1, tr1)"
    by (cases "Hitclick self selector None False tr")
  show ?case
  proof (cases r1)
    case (Inr u1)
    with Suc.prems h have "tr' = tr1" by simp
    with h Inr show ?thesis by auto
  next
    case (Inl e1)
    with Suc.prems h
    have "safe_click_loop self selector d n (Some e1) (tr1 @ [Sleep d]) = (Inr u, tr')"
      by (auto split: if_splits)
    from Suc.IH [OF this] show ?thesis .
  qed
qed

text \<open>
  Claim C10. \<open>safe_click\<close> gives the same result for every value of its
  \<open>timeout\<close> argument; the calls it makes are waits and clicks on the
  selector with the page's \<open>default_timeout\<close> (and the sleeps between
  attempts), with at most \<open>retries\<close> attempts; when it raises after at
  least one attempt (\<open>retries\<close> positive, the delay not negative), the
  exception is the one raised by the last \<open>Hitclick\<close> attempt, after which
  nothing but the sleep happened; when it returns, the last attempt returned.
\<close>

theorem safe_click_ignores_timeout:
  "safe_click self selector retries retry_delay timeout tr =
     safe_click self selector retries retry_delay timeout2 tr \<and>
   (safe_click self selector retries retry_delay timeout tr = (r, tr') \<longrightarrow>
      (\<exists>new. tr' = tr @ new \<and>
         list_all (click_event selector (default_timeout self) retry_delay) new \<and>
         length (filter (\<lambda>ev. ev = LocatorWaitFor selector ''visible'' (default_timeout self)) new)
           \<le> nat retries)) \<and>
   (safe_click self selector retries retry_delay timeout tr = (Inl e, tr1') \<and>
    0 < retries \<and> 0 \<le> retry_delay \<longrightarrow>
      (\<exists>tr0 tr1. Hitclick self selector None False tr0 = (Inl e, tr1) \<and>
         (tr1' = tr1 \<or> tr1' = tr1 @ [Sleep retry_delay]))) \<and>
   (safe_click self selector retries retry_delay timeout tr = (Inr u, tr2') \<longrightarrow>
      (\<exists>tr0. Hitclick self selector None False tr0 = (Inr u, tr2')))"
proof (intro conjI impI)
  show "safe_click self selector retries retry_delay timeout tr =
     safe_click self selector retries retry_delay timeout2 tr"
    by (simp add: safe_click_def)
next
  assume "safe_click self selector retries retry_delay timeout tr = (r, tr')"
  then have "safe_click_loop self selector retry_delay (nat retries) None tr = (r, tr')"
    by (simp add: safe_click_def)
  from safe_click_loop_trace [OF this]
  show "\<exists>new. tr' = tr @ new \<and>
         list_all (click_event selector (default_timeout self) retry_delay) new \<and>
         length (filter (\<lambda>ev. ev = LocatorWaitFor selector ''visible'' (default_timeout self)) new)
           \<le> nat retries" .
next
  assume a: "safe_click self selector retries retry_delay timeout tr = (Inl e, tr1') \<and>
    0 < retries \<and> 0 \<le> retry_delay"
  then have l: "safe_click_loop self selector retry_delay (nat retries) None tr = (Inl e, tr1')"
    by (simp add: safe_click_def)
  from a have "0 < nat retries \<or> (None :: exn option) \<noteq> None" "0 \<le> retry_delay" by simp_all
  from safe_click_loop_raise [OF l this]
  show "\<exists>tr0 tr1. Hitclick self selector None False tr0 = (Inl e, tr1) \<and>
         (tr1' = tr1 \<or> tr1' = tr1 @ [Sleep retry_delay])" by simp
next
  assume "safe_click self selector retries retry_delay timeout tr = (Inr u, tr2')"
  then have "safe_click_loop self selector retry_delay (nat retries) None tr = (Inr u, tr2')"
    by (simp add: safe_click_def)
  from safe_click_loop_return [OF this]
  show "\<exists>tr0. Hitclick self selector None False tr0 = (Inr u, tr2')" .
qed

theorem safe_click_ignores_timeout_witness:
  "safe_click \<lparr>page = always_times_out, base_url = None, default_timeout = 60000\<rparr>
      SUBMIT_BUTTON 2 0.25 (Some 30000) [] =
     (Inl TimeoutError,
      [LocatorWaitFor SUBMIT_BUTTON ''visible'' 60000, Sleep 0.25,
       LocatorWaitFor SUBMIT_BUTTON ''visible'' 60000, Sleep 0.25]) \<and>
   (\<exists>tr0 tr1.
      Hitclick \<lparr>page = always_times_out, base_url = None, default_timeout = 60000\<rparr>
        SUBMIT_BUTTON None False tr0 = (Inl TimeoutError, tr1) \<and>
      ([LocatorWaitFor SUBMIT_BUTTON ''visible'' 60000, Sleep 0.25,
        LocatorWaitFor SUBMIT_BUTTON ''visible'' 60000, Sleep 0.25] = tr1 \<or>
       [LocatorWaitFor SUBMIT_BUTTON ''visible'' 60000, Sleep 0.25,
        LocatorWaitFor SUBMIT_BUTTON ''visible'' 60000, Sleep 0.25] = tr1 @ [Sleep 0.25]))"
proof -
  let ?self = "\<lparr>page = always_times_out, base_url = None, default_timeout = 60000\<rparr>"
  let ?tr = "[LocatorWaitFor SUBMIT_BUTTON ''visible'' 60000, Sleep 0.25,
       LocatorWaitFor SUBMIT_BUTTON ''visible'' 60000, Sleep 0.25]"
  have e: "safe_click ?self SUBMIT_BUTTON 2 0.25 (Some 30000) [] = (Inl TimeoutError, ?tr)"
    by (simp add: safe_click_def Hitclick_def call_def always_times_out_def numeral_2_eq_2)
  have "safe_click ?self SUBMIT_BUTTON 2 0.25 (Some 30000) [] = (Inl TimeoutError, ?tr) \<and>
        (0::int) < 2 \<and> (0::real) \<le> 0.25" using e by simp
  with safe_click_ignores_timeout [of ?self SUBMIT_BUTTON 2 "0.25" "Some 30000" "[]" None
         "Inl TimeoutError" ?tr TimeoutError ?tr]
  have "\<exists>tr0 tr1. Hitclick ?self SUBMIT_BUTTON None False tr0 = (Inl TimeoutError, tr1) \<and>
         (?tr = tr1 \<or> ?tr = tr1 @ [Sleep 0.25])" by blast
  with e show ?thesis by blast
qed

lemma call_new:
  "P ev \<Longrightarrow> call respond ev tr = (r, tr') \<Longrightarrow> \<exists>new. tr' = tr @ new \<and> list_all P new"
  by (auto simp: call_def split: option.splits)

lemma calls_new:
  assumes p: "list_all P evs" and c: "calls respond evs tr = (r, tr')"
  shows "\<exists>new. tr' = tr @ new \<and> list_all P new"
proof -
  from calls_trace [OF c] obtain k where k: "tr' = tr @ take k evs" by blast
  from p have "list_all P (take k evs)"
    unfolding list_all_iff using set_take_subset [of k evs] by blast
  with k show ?thesis by blast
qed

lemma safe_click_new:
  assumes p: "\<And>ev. click_event selector (default_timeout self) d ev \<Longrightarrow> P ev"
    and c: "safe_click self selector retries d timeout tr = (r, tr')"
  shows "\<exists>new. tr' = tr @ new \<and> list_all P new"
proof -
  from c have "safe_click_loop self selector d (nat retries) None tr = (r, tr')"
    by (simp add: safe_click_def)
  from safe_click_loop_trace [OF this] obtain new where
    n: "tr' = tr @ new" "list_all (click_event selector (default_timeout self) d) new" by blast
  from n(2) p have "list_all P new" unfolding list_all_iff by blast
  with n(1) show ?thesis by blast
qed

lemma and_then_new:
  assumes a: "and_then m k = (r, tr')"
    and m: "\<exists>new. snd m = tr @ new \<and> list_all P new"
    and k: "\<And>t r' t'. k t = (r', t') \<Longrightarrow> \<exists>new. t' = t @ new \<and> list_all P new"
  shows "\<exists>new. tr' = tr @ new \<and> list_all P new"
proof -
  obtain r1 t1 where m1: "m = (r1, t1)" by (cases m)
  from m m1 obtain new1 where n1: "t1 = tr @ new1" "list_all P new1" by auto
  show ?thesis
  proof (cases r1)
    case (Inl e)
    with a m1 have "tr' = t1" by (simp add: and_then_def)
    with n1 show ?thesis by blast
  next
    case (Inr u)
    with a m1 have "k t1 = (r, tr')" by (simp add: and_then_def)
    from k [OF this] obtain new2 where "tr' = t1 @ new2" "list_all P new2" by blast
    with n1 have "tr' = tr @ (new1 @ new2) \<and> list_all P (new1 @ new2)" by simp
    then show ?thesis by blast
  qed
qed

lemma submit_email_new:
  assumes s: "submit_email self email tr = (r, tr')"
  shows "\<exists>new. tr' = tr @ new \<and>
           list_all (\<lambda>ev. ev \<noteq> Reload \<and> ev \<noteq> WaitForSelector OTP_INPUT ''visible'' 120000) new"
proof -
  let ?P = "\<lambda>ev. ev \<noteq> Reload \<and> ev \<noteq> WaitForSelector OTP_INPUT ''visible'' 120000"
  have clk: "\<And>sel t d ev. click_event sel t d ev \<Longrightarrow> ?P ev"
  proof -
    fix sel t d ev assume "click_event sel t d ev"
    then show "?P ev" by (cases ev) simp_all
  qed
  have wait: "\<And>sel st. ?P (WaitForSelector sel st 30000)" by simp
  show ?thesis
  proof (rule and_then_new [OF s [unfolded submit_email_def]])
    show "\<exists>new. snd (call (page self) (WaitForSelector EMAIL_INPUT ''visible'' 30000) tr) = tr @ new \<and>
            list_all ?P new"
      using call_new [of ?P "WaitForSelector EMAIL_INPUT ''visible'' 30000" "page self" tr]
      by (cases "call (page self) (WaitForSelector EMAIL_INPUT ''visible'' 30000) tr") simp
  next
    fix t r' t'
    assume a2: "and_then (type_text self EMAIL_INPUT email t) (\<lambda>tr.
       and_then (call (page self) (WaitForSelector CONTINUE_BUTTON ''attached'' 30000) tr) (\<lambda>tr.
       safe_click self CONTINUE_BUTTON 3 0.25 (Some 30000) tr)) = (r', t')"
    show "\<exists>new. t' = t @ new \<and> list_all ?P new"
    proof (rule and_then_new [OF a2])
      have "list_all ?P [WaitForSelector EMAIL_INPUT ''visible'' 20000, Fill EMAIL_INPUT email]"
        by simp
      from calls_new [OF this, of "page self" t]
      show "\<exists>new. snd (type_text self EMAIL_INPUT email t) = t @ new \<and> list_all ?P new"
        by (cases "type_text self EMAIL_INPUT email t") (simp add: type_text_def del: calls.simps)
    next
      fix t2 r2 t2'
      assume a3: "and_then (call (page self) (WaitForSelector CONTINUE_BUTTON ''attached'' 30000) t2)
         (\<lambda>tr. safe_click self CONTINUE_BUTTON 3 0.25 (Some 30000) tr) = (r2, t2')"
      show "\<exists>new. t2' = t2 @ new \<and> list_all ?P new"
      proof (rule and_then_new [OF a3])
        show "\<exists>new. snd (call (page self) (WaitForSelector CONTINUE_BUTTON ''attached'' 30000) t2) = t2 @ new \<and>
            list_all ?P new"
          using call_new [of ?P "WaitForSelector CONTINUE_BUTTON ''attached'' 30000" "page self" t2]
          by (cases "call (page self) (WaitForSelector CONTINUE_BUTTON ''attached'' 30000) t2") simp
      next
        fix t3 r3 t3'
        assume "safe_click self CONTINUE_BUTTON 3 0.25 (Some 30000) t3 = (r3, t3')"
        from safe_click_new [OF clk this]
        show "\<exists>new. t3' = t3 @ new \<and> list_all ?P new" .
      qed
    qed
  qed
qed

text \<open>
  Claim C6, as stated, fails: on a page where the first wait for the OTP input
  times out and a second one would return, \<open>NavBarLinks\<close> raises the
  timeout at once; the wait is the last call it makes, with no reload and no
  second wait.
\<close>

theorem otp_wait_not_retried_counterexample:
  "NavBarLinks \<lparr>page = otp_field_late, base_url = None, default_timeout = 60000\<rparr>
      empty_mailbox Inr ascii_digit ascii_word ''user@example.com'' [] =
     (Inl TimeoutError,
      [WaitForSelector EMAIL_INPUT ''visible'' 30000,
       WaitForSelector EMAIL_INPUT ''visible'' 20000,
       Fill EMAIL_INPUT ''user@example.com'',
       WaitForSelector CONTINUE_BUTTON ''attached'' 30000,
       LocatorWaitFor CONTINUE_BUTTON ''visible'' 60000,
       LocatorClick CONTINUE_BUTTON 60000 False,
       WaitForSelector OTP_INPUT ''visible'' 120000]) \<and>
   otp_field_late
      [WaitForSelector EMAIL_INPUT ''visible'' 30000,
       WaitForSelector EMAIL_INPUT ''visible'' 20000,
       Fill EMAIL_INPUT ''user@example.com'',
       WaitForSelector CONTINUE_BUTTON ''attached'' 30000,
       LocatorWaitFor CONTINUE_BUTTON ''visible'' 60000,
       LocatorClick CONTINUE_BUTTON 60000 False,
       WaitForSelector OTP_INPUT ''visible'' 120000]
      (WaitForSelector OTP_INPUT ''visible'' 120000) = None"
  by (simp add: NavBarLinks_def submit_email_def and_then_def type_text_def safe_click_def
      Hitclick_def call_def otp_field_late_def numeral_3_eq_3)

text \<open>
  Claim C6, amended. Once the email has been submitted, \<open>NavBarLinks\<close>
  waits for the OTP input a single time, with a timeout of 120000 ms; when
  that wait raises, the exception ends the attempt at once, the wait being
  the last call made. In no run does \<open>NavBarLinks\<close> reload the page or
  wait for the OTP input more than once.
\<close>

theorem NavBarLinks_otp_wait_once:
  "(submit_email self email tr = (Inr (), tr1) \<and>
    page self tr1 (WaitForSelector OTP_INPUT ''visible'' 120000) = Some e \<longrightarrow>
      NavBarLinks self mb dec dg wd email tr =
        (Inl e, tr1 @ [WaitForSelector OTP_INPUT ''visible'' 120000])) \<and>
   (NavBarLinks self mb dec dg wd email tr = (r, tr') \<longrightarrow>
      (\<exists>new. tr' = tr @ new \<and> Reload \<notin> set new \<and>
         length (filter (\<lambda>ev. ev = WaitForSelector OTP_INPUT ''visible'' 120000) new) \<le> 1))"
proof (intro conjI impI)
  assume "submit_email self email tr = (Inr (), tr1) \<and>
    page self tr1 (WaitForSelector OTP_INPUT ''visible'' 120000) = Some e"
  then show "NavBarLinks self mb dec dg wd email tr =
        (Inl e, tr1 @ [WaitForSelector OTP_INPUT ''visible'' 120000])"
    by (simp add: NavBarLinks_def and_then_def call_def)
next
  let ?W = "WaitForSelector OTP_INPUT ''visible'' 120000"
  let ?G = "GetLatestEmail ''subject:code''"
  assume n: "NavBarLinks self mb dec dg wd email tr = (r, tr')"
  obtain r1 t1 where s: "submit_email self email tr = (r1, t1)"
    by (cases "submit_email self email tr")
  from submit_email_new [OF s] obtain new1 where
    n1: "t1 = tr @ new1" "list_all (\<lambda>ev. ev \<noteq> Reload \<and> ev \<noteq> ?W) new1" by blast
  from n1(2) have f1: "filter (\<lambda>ev. ev = ?W) new1 = []" "Reload \<notin> set new1"
    by (auto simp: list_all_iff filter_empty_conv)
  from n s have "tr' = t1 \<or> tr' = t1 @ [?W] \<or> tr' = t1 @ [?W, ?G]"
    by (auto simp: NavBarLinks_def and_then_def call_def
        split: sum.splits option.splits if_splits)
  then consider (a) "tr' = tr @ new1" | (b) "tr' = tr @ (new1 @ [?W])"
    | (c) "tr' = tr @ (new1 @ [?W, ?G])" using n1(1) by auto
  then show "\<exists>new. tr' = tr @ new \<and> Reload \<notin> set new \<and>
         length (filter (\<lambda>ev. ev = ?W) new) \<le> 1"
  proof cases
    case a
    with f1 have "tr' = tr @ new1 \<and> Reload \<notin> set new1 \<and>
       length (filter (\<lambda>ev. ev = ?W) new1) \<le> 1" by simp
    then show ?thesis by blast
  next
    case b
    with f1 have "tr' = tr @ (new1 @ [?W]) \<and> Reload \<notin> set (new1 @ [?W]) \<and>
       length (filter (\<lambda>ev. ev = ?W) (new1 @ [?W])) \<le> 1" by simp
    then show ?thesis by blast
  next
    case c
    with f1 have "tr' = tr @ (new1 @ [?W, ?G]) \<and> Reload \<notin> set (new1 @ [?W, ?G]) \<and>
       length (filter (\<lambda>ev. ev = ?W) (new1 @ [?W, ?G])) \<le> 1" by simp
    then show ?thesis by blast
  qed
qed

theorem NavBarLinks_otp_wait_once_witness:
  "NavBarLinks \<lparr>page = otp_field_late, base_url = None, default_timeout = 60000\<rparr>
      missing_credentials Inr ascii_digit ascii_word ''user@example.com'' [] =
     (Inl TimeoutError,
      [WaitForSelector EMAIL_INPUT ''visible'' 30000,
       WaitForSelector EMAIL_INPUT ''visible'' 20000,
       Fill EMAIL_INPUT ''user@example.com'',
       WaitForSelector CONTINUE_BUTTON ''attached'' 30000,
       LocatorWaitFor CONTINUE_BUTTON ''visible'' 60000,
       LocatorClick CONTINUE_BUTTON 60000 False] @
      [WaitForSelector OTP_INPUT ''visible'' 120000])"
proof -
  let ?self = "\<lparr>page = otp_field_late, base_url = None, default_timeout = 60000\<rparr>"
  let ?t1 = "[WaitForSelector EMAIL_INPUT ''visible'' 30000,
       WaitForSelector EMAIL_INPUT ''visible'' 20000,
       Fill EMAIL_INPUT ''user@example.com'',
       WaitForSelector CONTINUE_BUTTON ''attached'' 30000,
       LocatorWaitFor CONTINUE_BUTTON ''visible'' 60000,
       LocatorClick CONTINUE_BUTTON 60000 False]"
  have h: "submit_email ?self ''user@example.com'' [] = (Inr (), ?t1) \<and>
    page ?self ?t1 (WaitForSelector OTP_INPUT ''visible'' 120000) = Some TimeoutError"
    by (simp add: submit_email_def and_then_def type_text_def safe_click_def
      Hitclick_def call_def otp_field_late_def numeral_3_eq_3)
  from NavBarLinks_otp_wait_once
         [of ?self "''user@example.com''" "[]" ?t1 TimeoutError missing_credentials
             Inr ascii_digit ascii_word] h
  show ?thesis by blast
qed

end
